theory Spec2Isabelle
  imports Complex_Main "HOL-Library.AList" "HOL-Library.Char_ord" "HOL-Library.List_Lexorder"
    "HOL-Library.Multiset" "HOL-Library.Product_Lexorder" "HOL-Library.Sublist"
begin

section \<open>Exceptions, paths and arrays\<close>

text \<open>
  The exceptions of the source as values. \<open>IOError\<close> is the one class the source catches by
  name; every other exception only meets the bare \<open>except:\<close> handlers.
\<close>

datatype error = IOError | TypeError | IndexError | KeyError | ValueError | RuntimeError
  | ReError | SteinbockIMCPreprocessingException

text \<open>
  A file argument is \<open>Union[str, PathLike]\<close>: a plain \<open>str\<close> or a \<open>pathlib.Path\<close> object.
  The text of a path is taken in the normal form \<open>pathlib\<close> prints (components joined by
  single slashes), so that \<open>Path(p)\<close> keeps the text and two \<open>Path\<close> objects are equal exactly
  when their texts are. A \<open>str\<close> never equals a \<open>Path\<close> object.
\<close>

datatype pathlike = Str string | PathObj string

fun Path :: "pathlike \<Rightarrow> string" where
  "Path (Str s) = s"
| "Path (PathObj s) = s"

fun is_str :: "pathlike \<Rightarrow> bool" where
  "is_str (Str s) = True"
| "is_str (PathObj s) = False"

text \<open>\<open>Path(p).name\<close>: the last component of the path.\<close>

definition name_of :: "string \<Rightarrow> string" where
  "name_of p = rev (takeWhile (\<lambda>c. c \<noteq> CHR ''/'') (rev p))"

text \<open>\<open>str.rfind('.')\<close>: the index of the last dot, or nothing.\<close>

definition rfind_dot :: "string \<Rightarrow> nat option" where
  "rfind_dot s = (if CHR ''.'' \<in> set s
     then Some (length s - 1 - length (takeWhile (\<lambda>c. c \<noteq> CHR ''.'') (rev s)))
     else None)"

text \<open>\<open>Path(p).stem\<close>: the name without its last suffix (\<open>0 < i < len(name) - 1\<close>).\<close>

definition stem :: "string \<Rightarrow> string" where
  "stem p = (let n = name_of p in
     case rfind_dot n of
       None \<Rightarrow> n
     | Some i \<Rightarrow> if 0 < i \<and> i + 1 < length n then take i n else n)"

text \<open>
  The dtype of a numpy array, as far as arithmetic goes: floating point, or unsigned or
  signed integers of a given number of bits.
\<close>

datatype dtype = Floating | UInt nat | SInt nat

text \<open>
  A numpy array: its shape, its dtype and the item at each index. Items are real numbers
  (whole numbers in the range of the dtype for an integer array); floating-point
  arithmetic and the conversion to \<open>float32\<close> are taken as exact.
\<close>

record ndarray =
  shape :: "nat list"
  dtype :: dtype
  item :: "nat list \<Rightarrow> real"

text \<open>
  \<open>a - b\<close> on items of one dtype: integer subtraction wraps around, modulo \<open>2 ^ w\<close> for
  unsigned and in two's complement for signed integers of \<open>w\<close> bits.
\<close>

definition subtract :: "dtype \<Rightarrow> real \<Rightarrow> real \<Rightarrow> real" where
  "subtract t a b = (case t of
       Floating \<Rightarrow> a - b
     | UInt w \<Rightarrow> of_int ((\<lfloor>a\<rfloor> - \<lfloor>b\<rfloor>) mod 2 ^ w)
     | SInt w \<Rightarrow> of_int ((\<lfloor>a\<rfloor> - \<lfloor>b\<rfloor> + 2 ^ (w - 1)) mod 2 ^ w - 2 ^ (w - 1)))"

text \<open>
  The part of readimc's \<open>Acquisition\<close> the source reads. \<open>roi_points_um\<close> is optional in
  readimc (a tuple of corner points, or \<open>None\<close>).
\<close>

record acquisition =
  acq_id :: nat
  description :: "string option"
  roi_points_um :: "(real \<times> real) list option"
  width_um :: real
  height_um :: real
  channel_names :: "string list"
  channel_labels :: "string list"

section \<open>create\_image\_info\<close>

text \<open>The values of the image info dictionary.\<close>

datatype val = VStr string | VNat nat | VReal real | VBool bool | VNone

text \<open>Indexing a tuple or list; out of range raises \<open>IndexError\<close>.\<close>

definition getitem :: "'a list \<Rightarrow> nat \<Rightarrow> error + 'a" where
  "getitem xs i = (if i < length xs then Inr (xs ! i) else Inl IndexError)"

text \<open>\<open>acquisition.roi_points_um[i]\<close>: subscripting \<open>None\<close> raises \<open>TypeError\<close>.\<close>

definition roi_point :: "acquisition \<Rightarrow> nat \<Rightarrow> error + (real \<times> real)" where
  "roi_point acq i = (case roi_points_um acq of
       None \<Rightarrow> Inl TypeError
     | Some ps \<Rightarrow> getitem ps i)"

definition opt_str :: "string option \<Rightarrow> val" where
  "opt_str s = (case s of None \<Rightarrow> VNone | Some t \<Rightarrow> VStr t)"

text \<open>
  The dictionary is an association list in insertion order; \<open>dict.update\<close> is
  \<^const>\<open>AList.update\<close> key by key.
\<close>

definition create_image_info ::
  "pathlike \<Rightarrow> acquisition option \<Rightarrow> ndarray \<Rightarrow> pathlike option \<Rightarrow> bool \<Rightarrow> pathlike
    \<Rightarrow> error + (string \<times> val) list" where
  "create_image_info mcd_txt_file acq img recovery_file recovered img_file =
    (let recovery_file_name = (case recovery_file of
            None \<Rightarrow> VNone
          | Some r \<Rightarrow> VStr (name_of (Path r)))
     in case getitem (shape img) 2 of Inl e \<Rightarrow> Inl e | Inr w \<Rightarrow>
        case getitem (shape img) 1 of Inl e \<Rightarrow> Inl e | Inr h \<Rightarrow>
        case getitem (shape img) 0 of Inl e \<Rightarrow> Inl e | Inr c \<Rightarrow>
        let image_info_row =
          [(''image'', VStr (name_of (Path img_file))),
           (''width_px'', VNat w),
           (''height_px'', VNat h),
           (''num_channels'', VNat c),
           (''source_file'', VStr (name_of (Path mcd_txt_file))),
           (''recovery_file'', recovery_file_name),
           (''recovered'', VBool recovered)]
        in case acq of
             None \<Rightarrow> Inr image_info_row
           | Some a \<Rightarrow>
               case roi_point a 0 of Inl e \<Rightarrow> Inl e | Inr p0 \<Rightarrow>
               case roi_point a 2 of Inl e \<Rightarrow> Inl e | Inr p2 \<Rightarrow>
               Inr (AList.update ''acquisition_height_um'' (VReal (height_um a))
                   (AList.update ''acquisition_width_um'' (VReal (width_um a))
                   (AList.update ''acquisition_end_y_um'' (VReal (snd p2))
                   (AList.update ''acquisition_end_x_um'' (VReal (fst p2))
                   (AList.update ''acquisition_start_y_um'' (VReal (snd p0))
                   (AList.update ''acquisition_start_x_um'' (VReal (fst p0))
                   (AList.update ''acquisition_description'' (opt_str (description a))
                   (AList.update ''acquisition_id'' (VNat (acq_id a)) image_info_row)))))))))"

text \<open>The keys that describe the acquisition geometry.\<close>

definition acquisition_keys :: "string list" where
  "acquisition_keys = [''acquisition_id'', ''acquisition_description'',
     ''acquisition_start_x_um'', ''acquisition_start_y_um'', ''acquisition_end_x_um'',
     ''acquisition_end_y_um'', ''acquisition_width_um'', ''acquisition_height_um'']"

section \<open>filter\_hot\_pixels and preprocess\_image\<close>

text \<open>
  scipy's index extension for \<open>mode="mirror"\<close> (reflection about the centre of the edge
  pixel), as its C code computes it for a coordinate \<open>cc\<close> on an axis of length \<open>len\<close>.
\<close>

definition mirror :: "nat \<Rightarrow> int \<Rightarrow> nat" where
  "mirror len cc =
    (let sz2 = 2 * int len - 2 in
     if cc < 0 then
       (if len \<le> 1 then 0
        else let c1 = sz2 * ((- cc) div sz2) + cc
             in nat (if c1 \<le> 1 - int len then c1 + sz2 else - c1))
     else if int len \<le> cc then
       (if len \<le> 1 then 0
        else let c1 = cc - sz2 * (cc div sz2)
             in nat (if int len \<le> c1 then sz2 - c1 else c1))
     else nat cc)"

text \<open>
  The footprint \<open>np.ones((1, 3, 3))\<close> with its centre cleared: the eight in-plane offsets
  \<open>(dy, dx)\<close>, none along the channel axis.
\<close>

definition kernel :: "(int \<times> int) list" where
  "kernel = [(-1, -1), (-1, 0), (-1, 1), (0, -1), (0, 1), (1, -1), (1, 0), (1, 1)]"

fun max_list :: "real list \<Rightarrow> real" where
  "max_list [] = 0"
| "max_list (x # xs) = foldl max x xs"

text \<open>The values under the footprint at pixel \<open>(c, y, x)\<close> of an image of height \<open>h\<close>, width \<open>w\<close>.\<close>

definition neighbours :: "ndarray \<Rightarrow> nat \<Rightarrow> nat \<Rightarrow> nat \<Rightarrow> nat \<Rightarrow> nat \<Rightarrow> real list" where
  "neighbours img h w c y x =
     map (\<lambda>(dy, dx). item img [c, mirror h (int y + dy), mirror w (int x + dx)]) kernel"

text \<open>
  \<open>maximum_filter(img, footprint=kernel, mode="mirror")\<close>; scipy raises \<open>RuntimeError\<close>
  when the footprint's rank differs from the image's.
\<close>

definition maximum_filter :: "ndarray \<Rightarrow> error + ndarray" where
  "maximum_filter img = (case shape img of
       [n, h, w] \<Rightarrow> Inr \<lparr>shape = [n, h, w], dtype = dtype img,
           item = (\<lambda>ix. case ix of
                [c, y, x] \<Rightarrow> max_list (neighbours img h w c y x)
              | _ \<Rightarrow> item img ix)\<rparr>
     | _ \<Rightarrow> Inl RuntimeError)"

text \<open>
  \<open>np.where(img - max_neighbor_img > thres, max_neighbor_img, img)\<close>: the difference is
  taken in the dtype of the image and then compared with \<open>thres\<close>.
\<close>

definition filter_hot_pixels :: "ndarray \<Rightarrow> real \<Rightarrow> error + ndarray" where
  "filter_hot_pixels img thres = (case maximum_filter img of
       Inl e \<Rightarrow> Inl e
     | Inr max_neighbor_img \<Rightarrow> Inr \<lparr>shape = shape img, dtype = dtype img,
           item = (\<lambda>ix. if subtract (dtype img) (item img ix) (item max_neighbor_img ix) > thres
                        then item max_neighbor_img ix else item img ix)\<rparr>)"

text \<open>
  \<open>preprocess_image\<close>: the image is first converted to \<open>float32\<close>. \<open>io._to_dtype\<close> is not
  among the sources; the final conversion is the parameter \<open>to_dtype\<close>.
\<close>

definition preprocess_image ::
  "(ndarray \<Rightarrow> ndarray) \<Rightarrow> ndarray \<Rightarrow> real option \<Rightarrow> error + ndarray" where
  "preprocess_image to_dtype img hpf =
    (let img32 = img\<lparr>dtype := Floating\<rparr>
     in case hpf of
          None \<Rightarrow> Inr (to_dtype img32)
        | Some t \<Rightarrow> (case filter_hot_pixels img32 t of
              Inl e \<Rightarrow> Inl e
            | Inr img' \<Rightarrow> Inr (to_dtype img')))"

text \<open>\<open>img[channel_ind, :, :]\<close>: needs three axes and every index below the first extent.\<close>

definition take_channels :: "ndarray \<Rightarrow> nat list \<Rightarrow> error + ndarray" where
  "take_channels img channel_ind = (case shape img of
       n # h # w # axes \<Rightarrow>
         if \<forall>i \<in> set channel_ind. i < n
         then Inr \<lparr>shape = length channel_ind # h # w # axes, dtype = dtype img,
                   item = (\<lambda>ix. case ix of
                        [] \<Rightarrow> item img ix
                      | k # rest \<Rightarrow> item img ((channel_ind ! k) # rest))\<rparr>
         else Inl IndexError
     | _ \<Rightarrow> Inl IndexError)"

section \<open>Matching txt files and reading images from disk\<close>

text \<open>\<open>f"{acquisition.id}"\<close>: the decimal digits of the id.\<close>

fun str_nat :: "nat \<Rightarrow> string" where
  "str_nat n = (if n < 10 then [''0123456789'' ! n]
     else str_nat (n div 10) @ [''0123456789'' ! (n mod 10)])"

declare str_nat.simps [simp del]

text \<open>What readimc's \<open>TXTFile\<close> gives once opened: the channel names and labels of its
  header and the outcome of \<open>read_acquisition()\<close>.\<close>

record txtfile =
  txt_channel_names :: "string list"
  txt_channel_labels :: "string list"
  txt_read_acquisition :: "error + ndarray"

text \<open>
  The libraries and the disk the generator runs against, as parameters:
  \<open>re_compile p\<close> is \<open>re.compile(p)\<close>, raising or giving the predicate "\<open>match(name)\<close> is not
  \<open>None\<close>"; \<open>MCDFile\<close> opens an MCD file and gives its slides, each a list of acquisitions;
  \<open>read_acquisition\<close> is the binary read of one acquisition; \<open>TXTFile\<close> opens a txt file;
  \<open>to_dtype\<close> is \<open>io._to_dtype\<close>. Files are addressed by the text of their path.
\<close>

record env =
  re_compile :: "string \<Rightarrow> error + (string \<Rightarrow> bool)"
  MCDFile :: "string \<Rightarrow> error + acquisition list list"
  read_acquisition :: "string \<Rightarrow> acquisition \<Rightarrow> error + ndarray"
  TXTFile :: "string \<Rightarrow> error + txtfile"
  to_dtype :: "ndarray \<Rightarrow> ndarray"

text \<open>The log records; \<open>logger.exception\<close> logs at level \<open>ERROR\<close>.\<close>

datatype level = WARNING | ERROR

datatype message =
    AmbiguousTxtFileMatching pathlike "pathlike list"
  | ChannelNotFoundForAcquisition string nat
  | ErrorReadingAcquisition nat pathlike error
  | RestoringFromFile pathlike
  | ChannelNotFoundInFile string pathlike
  | ErrorReadingFile pathlike error

text \<open>
  \<open>_match_txt_file\<close>. The pattern is the MCD stem, \<open>.*_0*\<close>, the id and \<open>.txt\<close>, compiled as
  it stands and matched at the start of each txt file name. With several matches the
  warning's argument \<open>", ".join(filtered_txt_files)\<close> is evaluated first: \<open>str.join\<close> raises
  \<open>TypeError\<close> unless every item is a \<open>str\<close>.
\<close>

definition match_txt_file ::
  "env \<Rightarrow> pathlike \<Rightarrow> acquisition \<Rightarrow> pathlike list
    \<Rightarrow> error + (pathlike option \<times> (level \<times> message) list)" where
  "match_txt_file env mcd_file acquisition txt_files =
    (case re_compile env
            (stem (Path mcd_file) @ ''.*_0*'' @ str_nat (acq_id acquisition) @ ''.txt'') of
       Inl e \<Rightarrow> Inl e
     | Inr txt_file_name_pattern \<Rightarrow>
         let filtered_txt_files =
               filter (\<lambda>txt_file. txt_file_name_pattern (name_of (Path txt_file))) txt_files
         in if length filtered_txt_files = 1 then Inr (Some (hd filtered_txt_files), [])
            else if length filtered_txt_files > 1 then
              (if list_all is_str filtered_txt_files
               then Inr (None, [(WARNING, AmbiguousTxtFileMatching mcd_file filtered_txt_files)])
               else Inl TypeError)
            else Inr (None, []))"

text \<open>\<open>list.index\<close>, for a member of the list.\<close>

fun index_of :: "'a list \<Rightarrow> 'a \<Rightarrow> nat" where
  "index_of [] x = 0"
| "index_of (y # ys) x = (if x = y then 0 else Suc (index_of ys x))"

text \<open>\<open>_get_channel_indices\<close>, on the channel names of the acquisition or txt file: the first
  requested name that is absent (\<open>Inl\<close>), or the indices of all the requested names.\<close>

fun get_channel_indices :: "string list \<Rightarrow> string list \<Rightarrow> string + nat list" where
  "get_channel_indices names [] = Inr []"
| "get_channel_indices names (channel_name # rest) =
     (if channel_name \<notin> set names then Inl channel_name
      else case get_channel_indices names rest of
             Inl missing \<Rightarrow> Inl missing
           | Inr channel_indices \<Rightarrow> Inr (index_of names channel_name # channel_indices))"

text \<open>\<open>channel_ind\<close> as the generator sets it: \<open>None\<close> without \<open>channel_names\<close>.\<close>

definition channel_ind_of :: "string list option \<Rightarrow> string list \<Rightarrow> string + nat list option" where
  "channel_ind_of channel_names_opt names = (case channel_names_opt of
       None \<Rightarrow> Inr None
     | Some requested \<Rightarrow> (case get_channel_indices names requested of
           Inl missing \<Rightarrow> Inl missing
         | Inr channel_indices \<Rightarrow> Inr (Some channel_indices)))"

text \<open>A yielded tuple: file, acquisition, image, matched txt file, recovered.\<close>

record yield =
  y_file :: string
  y_acquisition :: "acquisition option"
  y_img :: ndarray
  y_txt_file :: "string option"
  y_recovered :: bool

text \<open>The state of the generator: the txt files not yet matched, what was yielded so far
  and what was logged so far.\<close>

record state =
  unmatched_txt_files :: "pathlike list"
  yielded :: "yield list"
  logged :: "(level \<times> message) list"

definition log :: "level \<Rightarrow> message \<Rightarrow> state \<Rightarrow> state" where
  "log l m st = st\<lparr>logged := logged st @ [(l, m)]\<rparr>"

text \<open>
  The end of the loop body, once an image is there: select the channels, preprocess,
  yield. An exception here leaves the body (\<open>Some e\<close>).
\<close>

definition yield_image ::
  "env \<Rightarrow> real option \<Rightarrow> string \<Rightarrow> acquisition option \<Rightarrow> string option \<Rightarrow> bool
    \<Rightarrow> nat list option \<Rightarrow> ndarray \<Rightarrow> state \<Rightarrow> error option \<times> state" where
  "yield_image env hpf file acquisition txt_file recovered channel_ind img st =
    (case (case channel_ind of None \<Rightarrow> Inr img | Some ci \<Rightarrow> take_channels img ci) of
       Inl e \<Rightarrow> (Some e, st)
     | Inr img1 \<Rightarrow> (case preprocess_image (to_dtype env) img1 hpf of
           Inl e \<Rightarrow> (Some e, st)
         | Inr img2 \<Rightarrow> (None, st\<lparr>yielded := yielded st @
               [\<lparr>y_file = file, y_acquisition = acquisition, y_img = img2,
                 y_txt_file = txt_file, y_recovered = recovered\<rparr>]\<rparr>)))"

text \<open>
  The \<open>except IOError\<close> branch of the binary read: restore from the matched txt file.
  An \<open>IOError\<close> of the txt file is logged; any other exception leaves the body.
\<close>

definition restore_from_txt ::
  "env \<Rightarrow> string list option \<Rightarrow> real option \<Rightarrow> pathlike \<Rightarrow> acquisition \<Rightarrow> pathlike
    \<Rightarrow> state \<Rightarrow> error option \<times> state" where
  "restore_from_txt env channel_names_opt hpf mcd_file acquisition matched_txt_file st =
    (let st1 = log WARNING (RestoringFromFile matched_txt_file) st;
         failed = (\<lambda>e2. if e2 = IOError
             then (None, log ERROR (ErrorReadingFile matched_txt_file e2) st1)
             else (Some e2, st1))
     in case TXTFile env (Path matched_txt_file) of
          Inl e2 \<Rightarrow> failed e2
        | Inr f_txt \<Rightarrow> (case txt_read_acquisition f_txt of
              Inl e2 \<Rightarrow> failed e2
            | Inr img \<Rightarrow> (case channel_ind_of channel_names_opt (txt_channel_names f_txt) of
                  Inl missing \<Rightarrow>
                    (None, log WARNING (ChannelNotFoundInFile missing matched_txt_file) st1)
                | Inr channel_ind \<Rightarrow>
                    yield_image env hpf (Path mcd_file) (Some acquisition)
                      (Some (Path matched_txt_file)) True channel_ind img st1)))"

text \<open>
  The body of the loop over the acquisitions of an MCD file. The result says whether an
  exception left the body (it then reaches the \<open>except:\<close> around the file) and gives the
  state reached.
\<close>

definition process_acquisition ::
  "env \<Rightarrow> string list option \<Rightarrow> real option \<Rightarrow> pathlike \<Rightarrow> acquisition
    \<Rightarrow> state \<Rightarrow> error option \<times> state" where
  "process_acquisition env channel_names_opt hpf mcd_file acquisition st =
    (case match_txt_file env mcd_file acquisition (unmatched_txt_files st) of
       Inl e \<Rightarrow> (Some e, st)
     | Inr (matched_txt_file, warnings) \<Rightarrow>
         let st1 = st\<lparr>unmatched_txt_files := (case matched_txt_file of
                         None \<Rightarrow> unmatched_txt_files st
                       | Some t \<Rightarrow> remove1 t (unmatched_txt_files st)),
                     logged := logged st @ warnings\<rparr>
         in case channel_ind_of channel_names_opt (channel_names acquisition) of
              Inl missing \<Rightarrow>
                (None, log WARNING
                   (ChannelNotFoundForAcquisition missing (acq_id acquisition)) st1)
            | Inr channel_ind \<Rightarrow>
                (case read_acquisition env (Path mcd_file) acquisition of
                   Inr img \<Rightarrow>
                     yield_image env hpf (Path mcd_file) (Some acquisition)
                       (map_option Path matched_txt_file) False channel_ind img st1
                 | Inl e \<Rightarrow>
                     if e \<noteq> IOError then (Some e, st1)
                     else let st2 = log WARNING
                                (ErrorReadingAcquisition (acq_id acquisition) mcd_file e) st1
                          in (case matched_txt_file of
                                None \<Rightarrow> (None, st2)
                              | Some t \<Rightarrow> restore_from_txt env channel_names_opt hpf
                                            mcd_file acquisition t st2)))"

text \<open>The two nested loops over slides and acquisitions, left at the first exception.\<close>

fun process_acquisitions ::
  "env \<Rightarrow> string list option \<Rightarrow> real option \<Rightarrow> pathlike \<Rightarrow> acquisition list
    \<Rightarrow> state \<Rightarrow> error option \<times> state" where
  "process_acquisitions env cn hpf mcd_file [] st = (None, st)"
| "process_acquisitions env cn hpf mcd_file (a # as) st =
     (case process_acquisition env cn hpf mcd_file a st of
        (Some e, st') \<Rightarrow> (Some e, st')
      | (None, st') \<Rightarrow> process_acquisitions env cn hpf mcd_file as st')"

text \<open>One MCD file: the \<open>try\<close> around it catches everything and logs it.\<close>

definition process_mcd_file ::
  "env \<Rightarrow> string list option \<Rightarrow> real option \<Rightarrow> pathlike \<Rightarrow> state \<Rightarrow> state" where
  "process_mcd_file env cn hpf mcd_file st =
    (case MCDFile env (Path mcd_file) of
       Inl e \<Rightarrow> log ERROR (ErrorReadingFile mcd_file e) st
     | Inr slides \<Rightarrow> (case process_acquisitions env cn hpf mcd_file (concat slides) st of
           (None, st') \<Rightarrow> st'
         | (Some e, st') \<Rightarrow> log ERROR (ErrorReadingFile mcd_file e) st'))"

text \<open>One standalone txt file, already popped from the list.\<close>

definition process_txt_file ::
  "env \<Rightarrow> string list option \<Rightarrow> real option \<Rightarrow> pathlike \<Rightarrow> state \<Rightarrow> state" where
  "process_txt_file env cn hpf txt_file st =
    (let failed = (\<lambda>e. log ERROR (ErrorReadingFile txt_file e) st)
     in case TXTFile env (Path txt_file) of
          Inl e \<Rightarrow> failed e
        | Inr f \<Rightarrow> (case channel_ind_of cn (txt_channel_names f) of
              Inl missing \<Rightarrow> log WARNING (ChannelNotFoundInFile missing txt_file) st
            | Inr channel_ind \<Rightarrow> (case txt_read_acquisition f of
                  Inl e \<Rightarrow> failed e
                | Inr img \<Rightarrow>
                    (case yield_image env hpf (Path txt_file) None None False channel_ind img st of
                       (None, st') \<Rightarrow> st'
                     | (Some e, st') \<Rightarrow> log ERROR (ErrorReadingFile txt_file e) st'))))"

text \<open>\<open>while len(unmatched_txt_files) > 0: txt_file = unmatched_txt_files.pop(0); ...\<close>\<close>

fun process_txt_files ::
  "env \<Rightarrow> string list option \<Rightarrow> real option \<Rightarrow> pathlike list \<Rightarrow> state \<Rightarrow> state" where
  "process_txt_files env cn hpf [] st = st\<lparr>unmatched_txt_files := []\<rparr>"
| "process_txt_files env cn hpf (txt_file # rest) st =
     process_txt_files env cn hpf rest
       (process_txt_file env cn hpf txt_file (st\<lparr>unmatched_txt_files := rest\<rparr>))"

text \<open>\<open>sorted(mcd_files, key=lambda f: Path(f).stem, reverse=True)\<close>: Python sorts stably and
  keeps, with \<open>reverse=True\<close>, equal keys in their original order.\<close>

definition sorted_by_stem_reversed :: "pathlike list \<Rightarrow> pathlike list" where
  "sorted_by_stem_reversed mcd_files = rev (sort_key (\<lambda>f. stem (Path f)) (rev mcd_files))"

text \<open>The state after the loop over the MCD files.\<close>

definition after_mcd_files ::
  "env \<Rightarrow> pathlike list \<Rightarrow> pathlike list \<Rightarrow> string list option \<Rightarrow> real option \<Rightarrow> state" where
  "after_mcd_files env mcd_files txt_files cn hpf =
     foldl (\<lambda>st mcd_file. process_mcd_file env cn hpf mcd_file st)
       \<lparr>unmatched_txt_files = txt_files, yielded = [], logged = []\<rparr>
       (sorted_by_stem_reversed mcd_files)"

text \<open>The generator, run to its end: the final state holds the tuples in the order they
  were yielded.\<close>

definition try_preprocess_images_from_disk ::
  "env \<Rightarrow> pathlike list \<Rightarrow> pathlike list \<Rightarrow> string list option \<Rightarrow> real option \<Rightarrow> state" where
  "try_preprocess_images_from_disk env mcd_files txt_files cn hpf =
    (let st = after_mcd_files env mcd_files txt_files cn hpf
     in process_txt_files env cn hpf (unmatched_txt_files st) st)"

section \<open>A small regular expression matcher\<close>

text \<open>
  The part of Python's \<open>re\<close> that file name patterns of ordinary stems use: literal
  characters, \<open>.\<close> (any character but a newline) and \<open>*\<close> after a single character.
  \<open>re_compile_simple\<close> stands for \<open>re.compile\<close> on such patterns only: it rejects every
  pattern with another special character, also those Python accepts. It serves as the
  \<open>re_compile\<close> of the example environments.
\<close>

datatype re_atom = Lit char | AnyChar

definition re_special :: "char list" where
  "re_special = [CHR ''^'', CHR ''$'', CHR ''+'', CHR ''?'', CHR ''{'', CHR ''}'', CHR ''['',
     CHR '']'', CHR ''('', CHR '')'', CHR ''|'', CHR 0x5C, CHR ''*'']"

fun re_parse :: "string \<Rightarrow> (re_atom \<times> bool) list option" where
  "re_parse [] = Some []"
| "re_parse [c] = (if c \<in> set re_special then None
     else Some [(if c = CHR ''.'' then AnyChar else Lit c, False)])"
| "re_parse (c # d # ds) = (if c \<in> set re_special then None
     else let a = (if c = CHR ''.'' then AnyChar else Lit c)
          in if d = CHR ''*'' then map_option (Cons (a, True)) (re_parse ds)
             else map_option (Cons (a, False)) (re_parse (d # ds)))"

fun re_atom_matches :: "re_atom \<Rightarrow> char \<Rightarrow> bool" where
  "re_atom_matches (Lit c) d = (c = d)"
| "re_atom_matches AnyChar d = (d \<noteq> CHR 0x0A)"

text \<open>\<open>pattern.match(s)\<close>: some prefix of \<open>s\<close> matches the whole pattern.\<close>

fun re_match :: "(re_atom \<times> bool) list \<Rightarrow> string \<Rightarrow> bool" where
  "re_match [] s = True"
| "re_match ((a, False) # r) [] = False"
| "re_match ((a, False) # r) (c # cs) = (re_atom_matches a c \<and> re_match r cs)"
| "re_match ((a, True) # r) [] = re_match r []"
| "re_match ((a, True) # r) (c # cs) =
     (re_match r (c # cs) \<or> (re_atom_matches a c \<and> re_match ((a, True) # r) cs))"

definition re_compile_simple :: "string \<Rightarrow> error + (string \<Rightarrow> bool)" where
  "re_compile_simple p = (case re_parse p of
       None \<Rightarrow> Inl ReError
     | Some r \<Rightarrow> Inr (re_match r))"

section \<open>Notions for the properties\<close>

text \<open>The txt file a yielded tuple stands for: its source for a standalone txt file, its
  matched txt file (if any) for a tuple of an MCD acquisition.\<close>

definition txt_file_of :: "yield \<Rightarrow> string list" where
  "txt_file_of y = (case y_acquisition y of
       None \<Rightarrow> [y_file y]
     | Some a \<Rightarrow> (case y_txt_file y of None \<Rightarrow> [] | Some t \<Rightarrow> [t]))"

definition txt_files_of :: "yield list \<Rightarrow> string list" where
  "txt_files_of ys = concat (map txt_file_of ys)"

text \<open>What holds of the state during the loop over the MCD files, for the input
  \<open>txt_files\<close>: the unmatched files are distinct input files, every tuple belongs to an
  acquisition, and the txt files of the tuples are distinct and no longer unmatched.\<close>

definition mcd_phase_inv :: "pathlike list \<Rightarrow> state \<Rightarrow> bool" where
  "mcd_phase_inv txt_files st \<longleftrightarrow>
     set (unmatched_txt_files st) \<subseteq> set txt_files
     \<and> distinct (map Path (unmatched_txt_files st))
     \<and> distinct (txt_files_of (yielded st))
     \<and> set (txt_files_of (yielded st))
         \<subseteq> Path ` set txt_files - Path ` set (unmatched_txt_files st)
     \<and> (\<forall>y \<in> set (yielded st). y_acquisition y \<noteq> None)"

text \<open>The files of the tuples of one run over the MCD files: \<open>ns ! i\<close> tuples for the
  \<open>i\<close>-th file.\<close>

definition files_in_order :: "pathlike list \<Rightarrow> nat list \<Rightarrow> string list" where
  "files_in_order files ns = concat (map (\<lambda>(f, n). replicate n (Path f)) (zip files ns))"

section \<open>Panels\<close>

text \<open>
  A pandas data frame as the panel code uses it: the column names in order, and the rows,
  each giving the cell of every column (\<open>NA\<close> for a column it has no value in). Cells are
  strings, booleans, unsigned integers or \<open>NA\<close>. Column names are distinct, as
  \<open>read_csv\<close> and the constructors below make them.
\<close>

datatype cell = S string | B bool | U nat | NA

type_synonym row = "string \<Rightarrow> cell"

record dataframe =
  columns :: "string list"
  rows :: "row list"

text \<open>
  The sort key of \<open>_clean_panel\<close>: the digits of the channel id as a number. Without a
  digit \<open>pd.to_numeric\<close> gives NaN, which \<open>sort_values\<close> puts last: the key is the pair
  (is NaN, number), ordered lexicographically. Numbers are taken as exact.
\<close>

definition digits_of :: "string \<Rightarrow> string" where
  "digits_of s = filter (\<lambda>c. c \<in> set ''0123456789'') s"

definition to_numeric :: "string \<Rightarrow> nat" where
  "to_numeric ds = foldl (\<lambda>n c. 10 * n + index_of ''0123456789'' c) 0 ds"

definition channel_key :: "cell \<Rightarrow> bool \<times> nat" where
  "channel_key c = (case c of
       S s \<Rightarrow> (if digits_of s = [] then (True, 0) else (False, to_numeric (digits_of s)))
     | _ \<Rightarrow> (True, 0))"

text \<open>
  \<open>sort_values\<close> sorts with numpy's quicksort, which need not keep rows of equal key in
  their order. The sorting function is therefore a parameter \<open>sorter\<close> of the panel
  functions, and the properties assume of it only what \<open>is_sort\<close> says: the result is a
  rearrangement of the rows in ascending order of the key.
\<close>

definition is_sort :: "((row \<Rightarrow> bool \<times> nat) \<Rightarrow> row list \<Rightarrow> row list) \<Rightarrow> bool" where
  "is_sort sorter \<longleftrightarrow>
     (\<forall>key rs. mset (sorter key rs) = mset rs \<and> sorted (map key (sorter key rs)))"

text \<open>\<open>panel["name"].duplicated(keep=False)\<close> for one row.\<close>

definition name_duplicated :: "row list \<Rightarrow> row \<Rightarrow> bool" where
  "name_duplicated rs r \<longleftrightarrow> 1 < length (filter (\<lambda>q. q ''name'' = r ''name'') rs)"

text \<open>\<open>name + f" {i + 1}"\<close>; adding to \<open>NA\<close> gives \<open>NA\<close>.\<close>

definition with_suffix :: "cell \<Rightarrow> nat \<Rightarrow> cell" where
  "with_suffix c i = (case c of S s \<Rightarrow> S (s @ '' '' @ str_nat (i + 1)) | _ \<Rightarrow> c)"

text \<open>
  The name suffixes: \<open>groupby("name").cumcount()\<close> counts, for each row, the earlier rows
  of the same name (\<open>seen\<close> holds the earlier rows); rows whose name is duplicated get the
  suffix. Names are strings at every call of \<open>_clean_panel\<close>.
\<close>

fun add_name_suffixes :: "row list \<Rightarrow> row list \<Rightarrow> row list \<Rightarrow> row list" where
  "add_name_suffixes all_rows seen [] = []"
| "add_name_suffixes all_rows seen (r # rs) =
     (if name_duplicated all_rows r
      then r(''name'' := with_suffix (r ''name'')
               (length (filter (\<lambda>q. q ''name'' = r ''name'') seen)))
      else r) # add_name_suffixes all_rows (seen @ [r]) rs"

text \<open>\<open>panel[c] = values\<close>: a new column goes last.\<close>

definition set_column :: "string \<Rightarrow> (row \<Rightarrow> cell) \<Rightarrow> dataframe \<Rightarrow> dataframe" where
  "set_column c f p = \<lparr>columns = (if c \<in> set (columns p) then columns p else columns p @ [c]),
     rows = map (\<lambda>r. r(c := f r)) (rows p)\<rparr>"

text \<open>\<open>panel.loc[mask, c] = range(n, ...)\<close>: the rows of the mask are numbered in order.\<close>

fun number_rows :: "nat \<Rightarrow> bool list \<Rightarrow> string \<Rightarrow> row list \<Rightarrow> row list" where
  "number_rows n ms c [] = []"
| "number_rows n [] c (r # rs) = r # rs"
| "number_rows n (m # ms) c (r # rs) =
     (if m then r(c := U n) # number_rows (Suc n) ms c rs
      else r # number_rows n ms c rs)"

text \<open>The last loop of \<open>_clean_panel\<close>: each of the given columns that is present is
  dropped and inserted at \<open>next_column_index\<close>.\<close>

fun move_columns :: "string list \<Rightarrow> nat \<Rightarrow> string list \<Rightarrow> string list" where
  "move_columns [] next_column_index cols = cols"
| "move_columns (column # more_columns) next_column_index cols =
     (if column \<in> set cols
      then move_columns more_columns (Suc next_column_index)
             (take next_column_index (removeAll column cols) @ [column]
              @ drop next_column_index (removeAll column cols))
      else move_columns more_columns next_column_index cols)"

definition panel_columns :: "string list" where
  "panel_columns = [''channel'', ''name'', ''keep'', ''ilastik'', ''deepcell'']"

text \<open>\<open>if "keep" not in panel: ...\<close>: every row is kept.\<close>

definition default_keep :: "dataframe \<Rightarrow> dataframe" where
  "default_keep panel = (if ''keep'' \<in> set (columns panel) then panel
     else set_column ''keep'' (\<lambda>r. B True) panel)"

text \<open>\<open>if "ilastik" not in panel: ...\<close>: the kept rows are numbered from 1. Indexing with a
  \<open>keep\<close> column that holds anything but booleans raises \<open>ValueError\<close>.\<close>

definition default_ilastik :: "dataframe \<Rightarrow> error + dataframe" where
  "default_ilastik panel = (if ''ilastik'' \<in> set (columns panel) then Inr panel
     else if \<exists>r \<in> set (rows panel). r ''keep'' \<noteq> B True \<and> r ''keep'' \<noteq> B False
     then Inl ValueError
     else Inr ((set_column ''ilastik'' (\<lambda>r. NA) panel)
            \<lparr>rows := number_rows 1 (map (\<lambda>r. r ''keep'' = B True) (rows panel)) ''ilastik''
                       (rows (set_column ''ilastik'' (\<lambda>r. NA) panel))\<rparr>))"

text \<open>\<open>if "deepcell" not in panel: ...\<close>\<close>

definition default_deepcell :: "dataframe \<Rightarrow> dataframe" where
  "default_deepcell panel = (if ''deepcell'' \<in> set (columns panel) then panel
     else set_column ''deepcell'' (\<lambda>r. NA) panel)"

text \<open>
  \<open>_clean_panel\<close>: sort by channel, suffix the duplicated names, add the missing columns,
  move the five panel columns to the front. A missing \<open>channel\<close> or \<open>name\<close> column raises
  \<open>KeyError\<close>.
\<close>

definition clean_panel ::
  "((row \<Rightarrow> bool \<times> nat) \<Rightarrow> row list \<Rightarrow> row list) \<Rightarrow> dataframe \<Rightarrow> error + dataframe" where
  "clean_panel sorter panel =
    (if ''channel'' \<notin> set (columns panel) \<or> ''name'' \<notin> set (columns panel) then Inl KeyError
     else
       let sorted_rows = sorter (\<lambda>r. channel_key (r ''channel'')) (rows panel);
           p1 = panel\<lparr>rows := add_name_suffixes sorted_rows [] sorted_rows\<rparr>
       in case default_ilastik (default_keep p1) of
            Inl e \<Rightarrow> Inl e
          | Inr p3 \<Rightarrow> Inr ((default_deepcell p3)
                \<lparr>columns := move_columns panel_columns 0 (columns (default_deepcell p3))\<rparr>))"

text \<open>
  The frame of one acquisition or txt file: the columns \<open>channel\<close> and \<open>name\<close> from the two
  series; where one series is shorter, its cells are \<open>NA\<close>.
\<close>

definition series :: "string list \<Rightarrow> nat \<Rightarrow> cell" where
  "series xs i = (if i < length xs then S (xs ! i) else NA)"

definition channel_rows :: "string list \<Rightarrow> string list \<Rightarrow> row list" where
  "channel_rows names labels =
     map (\<lambda>i. (\<lambda>c. if c = ''channel'' then series names i
                     else if c = ''name'' then series labels i else NA))
       [0 ..< max (length names) (length labels)]"

text \<open>\<open>drop_duplicates\<close>: of the rows equal in all the columns, the first is kept.\<close>

fun drop_duplicates :: "string list \<Rightarrow> row list \<Rightarrow> row list \<Rightarrow> row list" where
  "drop_duplicates cols seen [] = []"
| "drop_duplicates cols seen (r # rs) =
     (if map r cols \<in> set (map (\<lambda>q. map q cols) seen) then drop_duplicates cols seen rs
      else r # drop_duplicates cols (r # seen) rs)"

text \<open>The frames of all acquisitions of all slides of the MCD files; a file that cannot
  be opened raises.\<close>

fun mcd_panels :: "env \<Rightarrow> pathlike list \<Rightarrow> error + row list list" where
  "mcd_panels env [] = Inr []"
| "mcd_panels env (mcd_file # files) = (case MCDFile env (Path mcd_file) of
       Inl e \<Rightarrow> Inl e
     | Inr slides \<Rightarrow> (case mcd_panels env files of
           Inl e \<Rightarrow> Inl e
         | Inr panels \<Rightarrow> Inr (map (\<lambda>acquisition. channel_rows (channel_names acquisition)
                                    (channel_labels acquisition)) (concat slides) @ panels)))"

fun txt_panels :: "env \<Rightarrow> pathlike list \<Rightarrow> error + row list list" where
  "txt_panels env [] = Inr []"
| "txt_panels env (txt_file # files) = (case TXTFile env (Path txt_file) of
       Inl e \<Rightarrow> Inl e
     | Inr f \<Rightarrow> (case txt_panels env files of
           Inl e \<Rightarrow> Inl e
         | Inr panels \<Rightarrow> Inr (channel_rows (txt_channel_names f) (txt_channel_labels f)
                               # panels)))"

text \<open>\<open>pd.concat\<close> of the frames (\<open>ValueError\<close> when there is none), \<open>drop_duplicates\<close>,
  \<open>_clean_panel\<close>.\<close>

definition concat_panels ::
  "((row \<Rightarrow> bool \<times> nat) \<Rightarrow> row list \<Rightarrow> row list) \<Rightarrow> row list list \<Rightarrow> error + dataframe" where
  "concat_panels sorter panels =
    (if panels = [] then Inl ValueError
     else clean_panel sorter
            \<lparr>columns = [''channel'', ''name''],
             rows = drop_duplicates [''channel'', ''name''] [] (concat panels)\<rparr>)"

definition create_panel_from_mcd_files ::
  "env \<Rightarrow> ((row \<Rightarrow> bool \<times> nat) \<Rightarrow> row list \<Rightarrow> row list) \<Rightarrow> pathlike list
    \<Rightarrow> error + dataframe" where
  "create_panel_from_mcd_files env sorter mcd_files = (case mcd_panels env mcd_files of
       Inl e \<Rightarrow> Inl e
     | Inr panels \<Rightarrow> concat_panels sorter panels)"

definition create_panel_from_txt_files ::
  "env \<Rightarrow> ((row \<Rightarrow> bool \<times> nat) \<Rightarrow> row list \<Rightarrow> row list) \<Rightarrow> pathlike list
    \<Rightarrow> error + dataframe" where
  "create_panel_from_txt_files env sorter txt_files = (case txt_panels env txt_files of
       Inl e \<Rightarrow> Inl e
     | Inr panels \<Rightarrow> concat_panels sorter panels)"

text \<open>
  \<open>create_panel_from_imc_panel\<close>, from the frame \<open>read_csv\<close> gives (with the named columns
  read as strings and booleans). \<open>rename_columns\<close> is the dictionary of the source, built
  key by key.
\<close>

definition rename_columns :: "string \<Rightarrow> string \<Rightarrow> string \<Rightarrow> string \<Rightarrow> (string \<times> string) list" where
  "rename_columns channel_col name_col keep_col ilastik_col =
     AList.update ilastik_col ''ilastik'' (AList.update keep_col ''keep''
       (AList.update name_col ''name'' [(channel_col, ''channel'')]))"

definition renamed :: "(string \<times> string) list \<Rightarrow> string \<Rightarrow> string" where
  "renamed dict c = (case map_of dict c of None \<Rightarrow> c | Some c' \<Rightarrow> c')"

text \<open>A row under its new column names: the cell of a new name is the cell of the column
  renamed to it.\<close>

definition rename_row :: "(string \<Rightarrow> string) \<Rightarrow> string list \<Rightarrow> row \<Rightarrow> row" where
  "rename_row ren cols r = (\<lambda>c'. case find (\<lambda>c. ren c = c') cols of
       None \<Rightarrow> NA
     | Some c \<Rightarrow> r c)"

fun strings_of :: "cell list \<Rightarrow> string list" where
  "strings_of [] = []"
| "strings_of (S s # cs) = s # strings_of cs"
| "strings_of (c # cs) = strings_of cs"

text \<open>\<open>unique()\<close>: the values in the order of their first occurrence.\<close>

definition unique :: "'a list \<Rightarrow> 'a list" where
  "unique xs = rev (remdups (rev xs))"

fun join :: "string \<Rightarrow> string list \<Rightarrow> string" where
  "join sep [] = []"
| "join sep [x] = x"
| "join sep (x # y # ys) = x @ sep @ join sep (y # ys)"

text \<open>
  The loop over \<open>panel.groupby("channel")\<close>, seen from one row: the rows of its channel
  get the joined names and, where the columns exist, the disjunction of their \<open>keep\<close> and
  \<open>ilastik\<close> cells. A row without a channel is in no group.
\<close>

definition merge_group :: "dataframe \<Rightarrow> row \<Rightarrow> row" where
  "merge_group panel r =
    (if r ''channel'' = NA then r
     else
       let g = filter (\<lambda>q. q ''channel'' = r ''channel'') (rows panel);
           r1 = r(''name'' := S (join '' / '' (unique (strings_of (map (\<lambda>q. q ''name'') g)))));
           r2 = (if ''keep'' \<in> set (columns panel)
                 then r1(''keep'' := B (B True \<in> set (map (\<lambda>q. q ''keep'') g))) else r1)
       in if ''ilastik'' \<in> set (columns panel)
          then r2(''ilastik'' := B (B True \<in> set (map (\<lambda>q. q ''ilastik'') g))) else r2)"

fun first_valid :: "cell list \<Rightarrow> cell" where
  "first_valid [] = NA"
| "first_valid (c # cs) = (if c = NA then first_valid cs else c)"

text \<open>\<open>panel.groupby(panel["channel"].values).aggregate("first")\<close>: one row for each
  channel, in ascending order of the channel ids, holding for every column the first
  cell of the group that is not \<open>NA\<close>.\<close>

definition groupby_first :: "dataframe \<Rightarrow> dataframe" where
  "groupby_first panel = panel\<lparr>rows :=
     map (\<lambda>k. (\<lambda>c. first_valid (map (\<lambda>r. r c)
                      (filter (\<lambda>r. r ''channel'' = S k) (rows panel)))))
       (sort (remdups (strings_of (map (\<lambda>r. r ''channel'') (rows panel)))))\<rparr>"

text \<open>\<open>fillna(False).astype(bool)\<close> of a cell.\<close>

fun truthy :: "cell \<Rightarrow> bool" where
  "truthy (B b) = b"
| "truthy (U n) = (0 < n)"
| "truthy (S s) = (s \<noteq> [])"
| "truthy NA = False"

definition create_panel_from_imc_panel ::
  "((row \<Rightarrow> bool \<times> nat) \<Rightarrow> row list \<Rightarrow> row list) \<Rightarrow> dataframe
    \<Rightarrow> string \<Rightarrow> string \<Rightarrow> string \<Rightarrow> string \<Rightarrow> error + dataframe" where
  "create_panel_from_imc_panel sorter imc_panel imc_panel_channel_col imc_panel_name_col
      imc_panel_keep_col imc_panel_ilastik_col =
    (if imc_panel_channel_col \<notin> set (columns imc_panel)
        \<or> imc_panel_name_col \<notin> set (columns imc_panel)
     then Inl SteinbockIMCPreprocessingException
     else if \<exists>notnan_col \<in> set [imc_panel_channel_col, imc_panel_keep_col, imc_panel_ilastik_col].
               notnan_col \<in> set (columns imc_panel)
               \<and> (\<exists>r \<in> set (rows imc_panel). r notnan_col = NA)
     then Inl SteinbockIMCPreprocessingException
     else
       let dict = rename_columns imc_panel_channel_col imc_panel_name_col
                    imc_panel_keep_col imc_panel_ilastik_col;
           drop_columns = map snd (filter (\<lambda>(imc_panel_col, panel_col).
                              panel_col \<in> set (columns imc_panel) \<and> panel_col \<noteq> imc_panel_col) dict);
           kept = filter (\<lambda>c. c \<notin> set drop_columns) (columns imc_panel);
           panel = \<lparr>columns = map (renamed dict) kept,
                    rows = map (rename_row (renamed dict) kept) (rows imc_panel)\<rparr>
       in if ''channel'' \<notin> set (columns panel) \<or> ''name'' \<notin> set (columns panel)
          then Inl KeyError
          else (case clean_panel sorter
                       (groupby_first (panel\<lparr>rows := map (merge_group panel) (rows panel)\<rparr>)) of
                  Inl e \<Rightarrow> Inl e
                | Inr cleaned \<Rightarrow>
                    Inr (cleaned\<lparr>rows :=
                      number_rows 1 (map (\<lambda>r. truthy (r ''ilastik'')) (rows cleaned)) ''ilastik''
                        (map (\<lambda>r. r(''ilastik'' := NA)) (rows cleaned))\<rparr>)))"

text \<open>The channel id and the name of a row.\<close>

definition channel_name :: "row \<Rightarrow> cell \<times> cell" where
  "channel_name r = (r ''channel'', r ''name'')"

text \<open>A frame as a table, to look at: the column names and the cells of each row.\<close>

definition table :: "error + dataframe \<Rightarrow> error + string list \<times> cell list list" where
  "table x = (case x of
       Inl e \<Rightarrow> Inl e
     | Inr p \<Rightarrow> Inr (columns p, map (\<lambda>r. map r (columns p)) (rows p)))"

section \<open>Example inputs\<close>

definition img0 :: ndarray where
  "img0 = \<lparr>shape = [2, 3, 4], dtype = Floating, item = (\<lambda>ix. 0)\<rparr>"

definition img1 :: ndarray where
  "img1 = \<lparr>shape = [1, 2, 2], dtype = Floating,
     item = (\<lambda>ix. if ix = [0, 0, 0] then 9 else 1)\<rparr>"

text \<open>A \<open>uint8\<close> image of one channel, \<open>[[1, 9], [9, 9]]\<close>.\<close>

definition img2 :: ndarray where
  "img2 = \<lparr>shape = [1, 2, 2], dtype = UInt 8,
     item = (\<lambda>ix. if ix = [0, 0, 0] then 1 else 9)\<rparr>"

definition acq0 :: acquisition where
  "acq0 = \<lparr>acq_id = 1, description = None, roi_points_um = None, width_um = 4, height_um = 3,
     channel_names = [''Ir191''], channel_labels = [''DNA1'']\<rparr>"

definition acq1 :: acquisition where
  "acq1 = \<lparr>acq_id = 1, description = Some ''roi'',
     roi_points_um = Some [(0, 0), (4, 0), (4, 3), (0, 3)], width_um = 4, height_um = 3,
     channel_names = [''Ir191''], channel_labels = [''DNA1'']\<rparr>"

text \<open>
  An example disk: \<open>a.mcd\<close> and \<open>b.mcd\<close> hold one acquisition each; the binary read works for
  \<open>b.mcd\<close> only. The txt file \<open>a_1.txt\<close> has the channel \<open>Ir191\<close>, every other txt file
  the channel \<open>Ir193\<close>.
\<close>

definition disk0 :: env where
  "disk0 = \<lparr>re_compile = re_compile_simple,
     MCDFile = (\<lambda>p. if p = ''a.mcd'' \<or> p = ''b.mcd'' then Inr [[acq1]] else Inl IOError),
     read_acquisition = (\<lambda>p a. if p = ''b.mcd'' then Inr img0 else Inl IOError),
     TXTFile = (\<lambda>p. Inr \<lparr>txt_channel_names = (if p = ''a_1.txt'' then [''Ir191''] else [''Ir193'']),
                          txt_channel_labels = (if p = ''a_1.txt'' then [''DNA1''] else [''DNA2'']),
                          txt_read_acquisition = Inr img0\<rparr>),
     to_dtype = (\<lambda>img. img)\<rparr>"

definition acq2 :: acquisition where
  "acq2 = \<lparr>acq_id = 2, description = None, roi_points_um = None, width_um = 4, height_um = 3,
     channel_names = [''Ir193''], channel_labels = [''DNA2'']\<rparr>"

definition state0 :: "pathlike list \<Rightarrow> state" where
  "state0 txt_files = \<lparr>unmatched_txt_files = txt_files, yielded = [], logged = []\<rparr>"

text \<open>What the examples show of a tuple: file, txt file, recovered and the image's shape.\<close>

definition summary :: "yield \<Rightarrow> string \<times> string option \<times> bool \<times> nat list" where
  "summary y = (y_file y, y_txt_file y, y_recovered y, shape (y_img y))"

definition acq3 :: acquisition where
  "acq3 = \<lparr>acq_id = 3, description = None, roi_points_um = None, width_um = 4, height_um = 3,
     channel_names = [''Ir193'', ''Ir191'', ''Yb172''],
     channel_labels = [''DNA'', ''DNA'', ''CD3'']\<rparr>"

definition acq4 :: acquisition where
  "acq4 = \<lparr>acq_id = 4, description = None, roi_points_um = None, width_um = 4, height_um = 3,
     channel_names = [''Ir191''], channel_labels = [''Histone'']\<rparr>"

text \<open>A second disk: \<open>c.mcd\<close> holds \<open>acq3\<close>, where two channels share the label \<open>DNA\<close>;
  \<open>d.mcd\<close> holds \<open>acq3\<close> and \<open>acq4\<close>, which label the channel \<open>Ir191\<close> differently.\<close>

definition disk1 :: env where
  "disk1 = \<lparr>re_compile = re_compile_simple,
     MCDFile = (\<lambda>p. if p = ''c.mcd'' then Inr [[acq3]]
                     else if p = ''d.mcd'' then Inr [[acq3, acq4]] else Inl IOError),
     read_acquisition = (\<lambda>p a. Inr img0),
     TXTFile = (\<lambda>p. Inr \<lparr>txt_channel_names = [''Ir191''], txt_channel_labels = [''DNA1''],
                          txt_read_acquisition = Inr img0\<rparr>),
     to_dtype = (\<lambda>img. img)\<rparr>"

text \<open>An IMC panel as read from a CSV file with the columns \<open>Metal Tag\<close>, \<open>Target\<close> and
  \<open>ilastik\<close>: the tag \<open>Ir191\<close> occurs twice.\<close>

definition csv0 :: dataframe where
  "csv0 = \<lparr>columns = [''Metal Tag'', ''Target'', ''ilastik''],
     rows = map (\<lambda>(tag, target, il). (\<lambda>c. if c = ''Metal Tag'' then S tag
                   else if c = ''Target'' then S target
                   else if c = ''ilastik'' then B il else NA))
       [(''Ir191'', ''DNA1'', False), (''Yb172'', ''CD3'', True), (''Ir191'', ''DNA'', True)]\<rparr>"

section \<open>The image info record\<close>

text \<open>
  C7, as the claim states it, fails: with an acquisition whose \<open>roi_points_um\<close> is \<open>None\<close>
  the subscript \<open>acquisition.roi_points_um[0]\<close> raises, and no record is returned, although
  the image has three axes.
\<close>

theorem create_image_info_no_roi_counterexample:
  "create_image_info (Str ''a.mcd'') (Some acq0) img0 None False (Str ''a_1.tiff'')
     = Inl TypeError"
  by (simp add: create_image_info_def getitem_def roi_point_def img0_def acq0_def)

text \<open>
  C7, amended: for an image with at least three axes and, when an acquisition is given,
  one whose \<open>roi_points_um\<close> holds at least three points, \<open>create_image_info\<close> returns a
  record with \<open>width_px = shape[2]\<close>, \<open>height_px = shape[1]\<close>, \<open>num_channels = shape[0]\<close>, the
  base names of the image and source paths, the passed recovery flag, the recovery file's
  base name or \<open>None\<close>, and the acquisition fields present exactly when an acquisition is
  given.
\<close>

theorem create_image_info_fields:
  assumes "3 \<le> length (shape img)"
    and "\<forall>a. acq = Some a \<longrightarrow> (\<exists>ps. roi_points_um a = Some ps \<and> 3 \<le> length ps)"
  shows "\<exists>d. create_image_info src acq img rf recovered imgf = Inr d
    \<and> map_of d ''width_px'' = Some (VNat (shape img ! 2))
    \<and> map_of d ''height_px'' = Some (VNat (shape img ! 1))
    \<and> map_of d ''num_channels'' = Some (VNat (shape img ! 0))
    \<and> map_of d ''image'' = Some (VStr (name_of (Path imgf)))
    \<and> map_of d ''source_file'' = Some (VStr (name_of (Path src)))
    \<and> map_of d ''recovered'' = Some (VBool recovered)
    \<and> map_of d ''recovery_file''
        = Some (case rf of None \<Rightarrow> VNone | Some r \<Rightarrow> VStr (name_of (Path r)))
    \<and> (\<forall>k \<in> set acquisition_keys. (map_of d k \<noteq> None) = (acq \<noteq> None))"
proof (cases acq)
  case None
  then show ?thesis using assms(1)
    by (auto simp add: create_image_info_def getitem_def acquisition_keys_def)
next
  case (Some a)
  then obtain ps where ps: "roi_points_um a = Some ps" "3 \<le> length ps"
    using assms(2) by blast
  show ?thesis using assms(1) Some ps
    by (auto simp add: create_image_info_def getitem_def roi_point_def acquisition_keys_def
        update_conv')
qed

theorem create_image_info_fields_witness:
  "\<exists>d. create_image_info (Str ''dir/a.mcd'') (Some acq1) img0 (Some (PathObj ''txt/a_1.txt''))
          True (Str ''img/a_1.tiff'') = Inr d
    \<and> map_of d ''width_px'' = Some (VNat 4)
    \<and> map_of d ''height_px'' = Some (VNat 3)
    \<and> map_of d ''num_channels'' = Some (VNat 2)
    \<and> map_of d ''image'' = Some (VStr ''a_1.tiff'')
    \<and> map_of d ''source_file'' = Some (VStr ''a.mcd'')
    \<and> map_of d ''recovered'' = Some (VBool True)
    \<and> map_of d ''recovery_file'' = Some (VStr ''a_1.txt'')
    \<and> map_of d ''acquisition_id'' \<noteq> None"
  using create_image_info_fields [of img0 "Some acq1" "Str ''dir/a.mcd''"
      "Some (PathObj ''txt/a_1.txt'')" True "Str ''img/a_1.tiff''"]
  by (auto simp add: img0_def acq1_def name_of_def acquisition_keys_def)

section \<open>The hot pixel filter\<close>



text \<open>The mirrored neighbours of a pixel lie inside the image.\<close>

lemma mirror_below: "0 < n \<Longrightarrow> - 1 \<le> i \<Longrightarrow> i \<le> int n \<Longrightarrow> mirror n i < n"
proof -
  assume n: "0 < n" and lo: "- 1 \<le> i" and hi: "i \<le> int n"
  consider "i = - 1" | "i = int n" | "0 \<le> i \<and> i < int n" using lo hi by linarith
  then show ?thesis
  proof cases
    case 1
    show ?thesis
    proof (cases "n \<le> 1")
      case True
      then show ?thesis using n 1 by (simp add: mirror_def)
    next
      case False
      then have "(1::int) div (2 * int n - 2) = 0" by (simp add: div_pos_pos_trivial)
      then show ?thesis using False 1 by (auto simp add: mirror_def Let_def)
    qed
  next
    case 2
    show ?thesis
    proof (cases "n \<le> 1")
      case True
      then show ?thesis using n 2 by (simp add: mirror_def)
    next
      case False
      show ?thesis
      proof (cases "n = 2")
        case True
        then show ?thesis using 2 by (simp add: mirror_def Let_def)
      next
        case n2: False
        then have "int n div (2 * int n - 2) = 0" using False by (simp add: div_pos_pos_trivial)
        then show ?thesis using False 2 n2 by (simp add: mirror_def Let_def)
      qed
    qed
  next
    case 3
    then show ?thesis by (auto simp add: mirror_def Let_def)
  qed
qed








section \<open>The loop body of the generator\<close>

lemma log_fields [simp]:
  "unmatched_txt_files (log l m st) = unmatched_txt_files st"
  "yielded (log l m st) = yielded st"
  "logged (log l m st) = logged st @ [(l, m)]"
  by (simp_all add: log_def)

lemma match_txt_file_member:
  assumes "match_txt_file env mcd a txts = Inr (Some t, ws)"
  shows "t \<in> set txts"
proof -
  from assms obtain pat where
    one: "length (filter (\<lambda>x. pat (name_of (Path x))) txts) = 1"
    and t: "t = hd (filter (\<lambda>x. pat (name_of (Path x))) txts)"
    by (auto simp add: match_txt_file_def Let_def split: sum.splits if_splits)
  from one have "filter (\<lambda>x. pat (name_of (Path x))) txts \<noteq> []" by auto
  then have "hd (filter (\<lambda>x. pat (name_of (Path x))) txts)
      \<in> set (filter (\<lambda>x. pat (name_of (Path x))) txts)" by (rule hd_in_set)
  then show ?thesis using t by simp
qed

lemma yield_image_cases:
  assumes "yield_image env hpf file acq txt r ci img st = (res, st')"
  shows "(res \<noteq> None \<and> st' = st) \<or>
     (res = None \<and> (\<exists>img2. st' = st\<lparr>yielded := yielded st @
         [\<lparr>y_file = file, y_acquisition = acq, y_img = img2, y_txt_file = txt,
           y_recovered = r\<rparr>]\<rparr>))"
  using assms by (auto simp add: yield_image_def split: sum.splits option.splits)

lemma restore_from_txt_cases:
  assumes "restore_from_txt env cn hpf mcd a t st = (res, st')"
  shows "unmatched_txt_files st' = unmatched_txt_files st \<and>
     (yielded st' = yielded st \<or>
      (res = None \<and> (\<exists>img2. yielded st' = yielded st @
         [\<lparr>y_file = Path mcd, y_acquisition = Some a, y_img = img2,
           y_txt_file = Some (Path t), y_recovered = True\<rparr>])))"
  using assms
  by (auto simp add: restore_from_txt_def Let_def
      split: sum.splits if_splits dest!: yield_image_cases)

lemma process_acquisition_cases:
  assumes "process_acquisition env cn hpf mcd a st = (res, st')"
  shows "\<exists>m. (\<forall>t. m = Some t \<longrightarrow> t \<in> set (unmatched_txt_files st))
     \<and> unmatched_txt_files st' = (case m of None \<Rightarrow> unmatched_txt_files st
           | Some t \<Rightarrow> remove1 t (unmatched_txt_files st))
     \<and> (yielded st' = yielded st \<or>
        (res = None \<and> (\<exists>img2 r. yielded st' = yielded st @
           [\<lparr>y_file = Path mcd, y_acquisition = Some a, y_img = img2,
             y_txt_file = map_option Path m, y_recovered = r\<rparr>]
           \<and> (r \<longrightarrow> read_acquisition env (Path mcd) a = Inl IOError \<and> m \<noteq> None))))"
proof (cases "match_txt_file env mcd a (unmatched_txt_files st)")
  case (Inl e)
  then have "st' = st" using assms by (simp add: process_acquisition_def)
  then show ?thesis by (intro exI[of _ None]) simp
next
  case (Inr mw)
  obtain m ws where mw: "mw = (m, ws)" by (cases mw)
  have mem: "\<forall>t. m = Some t \<longrightarrow> t \<in> set (unmatched_txt_files st)"
    using Inr mw match_txt_file_member by blast
  show ?thesis
    apply (intro exI[of _ m] conjI mem)
    using assms Inr mw
     apply (auto simp add: process_acquisition_def Let_def
        split: sum.splits if_splits option.splits
        dest!: yield_image_cases restore_from_txt_cases)
    done
qed

section \<open>The loops of the generator\<close>

lemma subseq_distinct_imp: "subseq xs ys \<Longrightarrow> distinct ys \<Longrightarrow> distinct xs"
  by (induction rule: list_emb.induct) (auto dest: list_emb_set)

lemma subseq_remove1: "subseq (remove1 x xs) xs"
  by (induction xs) auto

lemma process_acquisitions_preserves:
  assumes step: "\<And>a st res st'. P st \<Longrightarrow> process_acquisition env cn hpf mcd a st = (res, st') \<Longrightarrow> P st'"
    and "P st"
  shows "P (snd (process_acquisitions env cn hpf mcd as st))"
  using assms(2)
proof (induction as arbitrary: st)
  case Nil
  then show ?case by simp
next
  case (Cons a as)
  obtain res st' where r: "process_acquisition env cn hpf mcd a st = (res, st')"
    by (cases "process_acquisition env cn hpf mcd a st")
  have P': "P st'" using step Cons.prems r by blast
  show ?case
  proof (cases res)
    case None
    then show ?thesis using r Cons.IH[OF P'] by simp
  next
    case (Some e)
    then show ?thesis using r P' by simp
  qed
qed

lemma process_mcd_file_preserves:
  assumes step: "\<And>a st res st'. P st \<Longrightarrow> process_acquisition env cn hpf mcd a st = (res, st') \<Longrightarrow> P st'"
    and lg: "\<And>st l m. P st \<Longrightarrow> P (log l m st)"
    and "P st"
  shows "P (process_mcd_file env cn hpf mcd st)"
proof (cases "MCDFile env (Path mcd)")
  case (Inl e)
  then show ?thesis using lg assms(3) by (simp add: process_mcd_file_def)
next
  case (Inr slides)
  have "P (snd (process_acquisitions env cn hpf mcd (concat slides) st))"
    using process_acquisitions_preserves[of P env cn hpf mcd st "concat slides"] step assms(3)
    by blast
  then show ?thesis using Inr lg
    by (auto simp add: process_mcd_file_def split: prod.splits option.splits)
qed

lemma foldl_process_mcd_file_preserves:
  assumes step: "\<And>mcd a st res st'. P st \<Longrightarrow> process_acquisition env cn hpf mcd a st = (res, st') \<Longrightarrow> P st'"
    and lg: "\<And>st l m. P st \<Longrightarrow> P (log l m st)"
    and "P st"
  shows "P (foldl (\<lambda>st mcd_file. process_mcd_file env cn hpf mcd_file st) st files)"
  using assms(3)
proof (induction files arbitrary: st)
  case Nil
  then show ?case by simp
next
  case (Cons f files)
  have "P (process_mcd_file env cn hpf f st)"
    using process_mcd_file_preserves[of P env cn hpf f st] step lg Cons.prems by blast
  then show ?case using Cons.IH by simp
qed

lemma process_txt_file_cases:
  "unmatched_txt_files (process_txt_file env cn hpf t st) = unmatched_txt_files st \<and>
   (yielded (process_txt_file env cn hpf t st) = yielded st \<or>
    (\<exists>img2. yielded (process_txt_file env cn hpf t st) = yielded st @
       [\<lparr>y_file = Path t, y_acquisition = None, y_img = img2, y_txt_file = None,
         y_recovered = False\<rparr>]))"
  by (auto simp add: process_txt_file_def Let_def
      split: sum.splits prod.splits option.splits dest!: yield_image_cases)

lemma process_txt_files_yields:
  "\<exists>ys. yielded (process_txt_files env cn hpf ts st) = yielded st @ ys
     \<and> subseq (map y_file ys) (map Path ts)
     \<and> (\<forall>y \<in> set ys. y_acquisition y = None \<and> y_txt_file y = None \<and> \<not> y_recovered y)"
proof (induction ts arbitrary: st)
  case Nil
  then show ?case by simp
next
  case (Cons t ts)
  let ?st1 = "process_txt_file env cn hpf t (st\<lparr>unmatched_txt_files := ts\<rparr>)"
  obtain ys where ys: "yielded (process_txt_files env cn hpf ts ?st1) = yielded ?st1 @ ys"
    "subseq (map y_file ys) (map Path ts)"
    "\<forall>y \<in> set ys. y_acquisition y = None \<and> y_txt_file y = None \<and> \<not> y_recovered y"
    using Cons.IH by blast
  from process_txt_file_cases[of env cn hpf t "st\<lparr>unmatched_txt_files := ts\<rparr>"]
  consider "yielded ?st1 = yielded st"
    | img2 where "yielded ?st1 = yielded st @
       [\<lparr>y_file = Path t, y_acquisition = None, y_img = img2, y_txt_file = None,
         y_recovered = False\<rparr>]"
    by auto
  then show ?case
  proof cases
    case 1
    then show ?thesis using ys by (intro exI[of _ ys]) auto
  next
    case 2
    then show ?thesis using ys
      by (intro exI[of _ "\<lparr>y_file = Path t, y_acquisition = None, y_img = img2,
            y_txt_file = None, y_recovered = False\<rparr> # ys"]) auto
  qed
qed

section \<open>Each txt file is used once\<close>

lemma txt_files_of_append [simp]: "txt_files_of (xs @ ys) = txt_files_of xs @ txt_files_of ys"
  by (simp add: txt_files_of_def)

lemma txt_files_of_Nil [simp]: "txt_files_of [] = []"
  by (simp add: txt_files_of_def)

lemma txt_files_of_single [simp]: "txt_files_of [y] = txt_file_of y"
  by (simp add: txt_files_of_def)

lemma mcd_phase_inv_log: "mcd_phase_inv txts st \<Longrightarrow> mcd_phase_inv txts (log l m st)"
  by (simp add: mcd_phase_inv_def)

lemma Path_notin_remove1:
  assumes "distinct (map Path us)" and "t \<in> set us"
  shows "Path t \<notin> Path ` set (remove1 t us)"
proof
  assume "Path t \<in> Path ` set (remove1 t us)"
  then obtain u where u: "u \<in> set (remove1 t us)" "Path u = Path t" by auto
  have d: "distinct us" and inj: "inj_on Path (set us)"
    using assms(1) by (simp_all add: distinct_map)
  have "u \<in> set us" using u(1) set_remove1_subset by fastforce
  then have "u = t" using inj u(2) assms(2) by (auto dest: inj_onD)
  then show False using u(1) d by simp
qed

lemma mcd_phase_inv_step:
  assumes inv: "mcd_phase_inv txts st"
    and r: "process_acquisition env cn hpf mcd a st = (res, st')"
  shows "mcd_phase_inv txts st'"
proof -
  let ?U = "unmatched_txt_files st"
  from process_acquisition_cases[OF r] obtain m where
    mem: "\<forall>t. m = Some t \<longrightarrow> t \<in> set ?U"
    and U': "unmatched_txt_files st' = (case m of None \<Rightarrow> ?U | Some t \<Rightarrow> remove1 t ?U)"
    and ys: "yielded st' = yielded st \<or>
        (res = None \<and> (\<exists>img2 r. yielded st' = yielded st @
           [\<lparr>y_file = Path mcd, y_acquisition = Some a, y_img = img2,
             y_txt_file = map_option Path m, y_recovered = r\<rparr>]
           \<and> (r \<longrightarrow> read_acquisition env (Path mcd) a = Inl IOError \<and> m \<noteq> None)))"
    by blast
  have sub: "set ?U \<subseteq> set txts" and dU: "distinct (map Path ?U)"
    and dY: "distinct (txt_files_of (yielded st))"
    and sY: "set (txt_files_of (yielded st)) \<subseteq> Path ` set txts - Path ` set ?U"
    and aY: "\<forall>y \<in> set (yielded st). y_acquisition y \<noteq> None"
    using inv by (simp_all add: mcd_phase_inv_def)
  have subU': "set (unmatched_txt_files st') \<subseteq> set ?U"
  proof (cases m)
    case None
    then show ?thesis using U' by simp
  next
    case (Some t)
    then show ?thesis using U' set_remove1_subset[of t ?U] by simp
  qed
  have dU': "distinct (map Path (unmatched_txt_files st'))"
  proof (cases m)
    case None
    then show ?thesis using U' dU by simp
  next
    case (Some t)
    have "distinct ?U" "inj_on Path (set ?U)" using dU by (simp_all add: distinct_map)
    then have "distinct (remove1 t ?U)" "inj_on Path (set (remove1 t ?U))"
      using set_remove1_subset[of t ?U] by (auto intro: inj_on_subset)
    then show ?thesis using U' Some by (simp add: distinct_map)
  qed
  have sY': "set (txt_files_of (yielded st))
      \<subseteq> Path ` set txts - Path ` set (unmatched_txt_files st')"
    using sY subU' by blast
  from ys show ?thesis
  proof
    assume same: "yielded st' = yielded st"
    show ?thesis unfolding mcd_phase_inv_def same
      using sub subU' dU' dY sY' aY by auto
  next
    assume "res = None \<and> (\<exists>img2 r. yielded st' = yielded st @
           [\<lparr>y_file = Path mcd, y_acquisition = Some a, y_img = img2,
             y_txt_file = map_option Path m, y_recovered = r\<rparr>]
           \<and> (r \<longrightarrow> read_acquisition env (Path mcd) a = Inl IOError \<and> m \<noteq> None))"
    then obtain img2 r where y: "yielded st' = yielded st @
           [\<lparr>y_file = Path mcd, y_acquisition = Some a, y_img = img2,
             y_txt_file = map_option Path m, y_recovered = r\<rparr>]" by blast
    show ?thesis
    proof (cases m)
      case None
      then show ?thesis unfolding mcd_phase_inv_def y
        using sub subU' dU' dY sY' aY by (auto simp add: txt_file_of_def)
    next
      case (Some t)
      have tU: "t \<in> set ?U" using mem Some by simp
      have new1: "Path t \<notin> set (txt_files_of (yielded st))" using sY tU by auto
      have new2: "Path t \<notin> Path ` set (unmatched_txt_files st')"
        using Path_notin_remove1[OF dU tU] U' Some by simp
      have new3: "Path t \<in> Path ` set txts" using tU sub by auto
      show ?thesis unfolding mcd_phase_inv_def y
        using sub subU' dU' dY sY' aY new1 new2 new3 Some
        by (auto simp add: txt_file_of_def)
    qed
  qed
qed

lemma mcd_phase_inv_after:
  assumes "distinct (map Path txts)"
  shows "mcd_phase_inv txts (after_mcd_files env mcds txts cn hpf)"
  unfolding after_mcd_files_def
proof (rule foldl_process_mcd_file_preserves[where P = "mcd_phase_inv txts"])
  show "mcd_phase_inv txts \<lparr>unmatched_txt_files = txts, yielded = [], logged = []\<rparr>"
    using assms by (simp add: mcd_phase_inv_def)
qed (auto intro: mcd_phase_inv_step mcd_phase_inv_log)

section \<open>The order of the yielded tuples\<close>

lemma files_in_order_Nil [simp]: "files_in_order [] ns = []" "files_in_order fs [] = []"
  by (simp_all add: files_in_order_def)

lemma files_in_order_Cons [simp]:
  "files_in_order (f # fs) (n # ns) = replicate n (Path f) @ files_in_order fs ns"
  by (simp add: files_in_order_def)

lemma set_files_in_order: "set (files_in_order fs ns) \<subseteq> Path ` set fs"
proof (induction fs arbitrary: ns)
  case Nil
  then show ?case by simp
next
  case (Cons f fs)
  show ?case
  proof (cases ns)
    case Nil
    then show ?thesis by simp
  next
    case (Cons n ns')
    then show ?thesis using Cons.IH[of ns'] by auto
  qed
qed

lemma files_in_order_descending:
  assumes "sorted_wrt (\<lambda>a b. b \<le> a) (map (\<lambda>f. stem (Path f)) fs)"
  shows "sorted_wrt (\<lambda>a b. b \<le> a) (map stem (files_in_order fs ns))"
  using assms
proof (induction fs arbitrary: ns)
  case Nil
  then show ?case by simp
next
  case (Cons f fs)
  show ?case
  proof (cases ns)
    case Nil
    then show ?thesis by simp
  next
    case (Cons n ns')
    have tl: "sorted_wrt (\<lambda>a b. b \<le> a) (map stem (files_in_order fs ns'))"
      using Cons.IH Cons.prems by simp
    have le: "\<forall>g \<in> set fs. stem (Path g) \<le> stem (Path f)" using Cons.prems by simp
    have hdl: "sorted_wrt (\<lambda>a b. b \<le> a) (map stem (replicate n (Path f)))"
      by (simp add: sorted_wrt_iff_nth_less)
    have cross: "\<forall>x \<in> set (map stem (replicate n (Path f))).
        \<forall>y \<in> set (map stem (files_in_order fs ns')). y \<le> x"
      using le set_files_in_order[of fs ns'] by auto
    show ?thesis unfolding Cons files_in_order_Cons map_append
      using tl hdl cross by (simp add: sorted_wrt_append)
  qed
qed

lemma sorted_by_stem_reversed_descending:
  "sorted_wrt (\<lambda>a b. b \<le> a) (map (\<lambda>f. stem (Path f)) (sorted_by_stem_reversed mcd_files))"
proof -
  have "sorted (map (\<lambda>f. stem (Path f)) (sort_key (\<lambda>f. stem (Path f)) (rev mcd_files)))"
    by simp
  then have "sorted_wrt (\<lambda>a b. b \<le> a)
      (rev (map (\<lambda>f. stem (Path f)) (sort_key (\<lambda>f. stem (Path f)) (rev mcd_files))))"
    by (simp add: sorted_wrt_rev)
  then show ?thesis by (simp add: sorted_by_stem_reversed_def rev_map)
qed

lemma mset_sorted_by_stem_reversed:
  "mset (sorted_by_stem_reversed mcd_files) = mset mcd_files"
  by (simp add: sorted_by_stem_reversed_def)

lemma process_mcd_file_files:
  "\<exists>n. map y_file (yielded (process_mcd_file env cn hpf mcd st))
     = map y_file (yielded st) @ replicate n (Path mcd)"
proof (rule process_mcd_file_preserves[where
      P = "\<lambda>s::state. \<exists>n. map y_file (yielded s) = map y_file (yielded st) @ replicate n (Path mcd)"])
  show "\<exists>n. map y_file (yielded st) = map y_file (yielded st) @ replicate n (Path mcd)"
    by (intro exI[of _ 0]) simp
next
  fix a and s s' :: state and res
  assume "\<exists>n. map y_file (yielded s) = map y_file (yielded st) @ replicate n (Path mcd)"
    and r: "process_acquisition env cn hpf mcd a s = (res, s')"
  then obtain n where n: "map y_file (yielded s) = map y_file (yielded st) @ replicate n (Path mcd)"
    by blast
  from process_acquisition_cases[OF r]
  consider "yielded s' = yielded s"
    | y where "yielded s' = yielded s @ [y]" "y_file y = Path mcd"
    by auto
  then show "\<exists>n. map y_file (yielded s') = map y_file (yielded st) @ replicate n (Path mcd)"
  proof cases
    case 1
    then show ?thesis using n by auto
  next
    case 2
    then have "map y_file (yielded s')
        = map y_file (yielded st) @ replicate (Suc n) (Path mcd)"
      using n by (simp add: replicate_append_same)
    then show ?thesis by blast
  qed
next
  fix s :: state and l m
  assume "\<exists>n. map y_file (yielded s) = map y_file (yielded st) @ replicate n (Path mcd)"
  then show "\<exists>n. map y_file (yielded (log l m s))
      = map y_file (yielded st) @ replicate n (Path mcd)" by simp
qed

lemma foldl_process_mcd_file_files:
  "\<exists>ns. length ns = length files
     \<and> map y_file (yielded (foldl (\<lambda>st mcd_file. process_mcd_file env cn hpf mcd_file st) st files))
        = map y_file (yielded st) @ files_in_order files ns"
proof (induction files arbitrary: st)
  case Nil
  then show ?case by simp
next
  case (Cons f files)
  obtain n where n: "map y_file (yielded (process_mcd_file env cn hpf f st))
     = map y_file (yielded st) @ replicate n (Path f)"
    using process_mcd_file_files by blast
  obtain ns where ns: "length ns = length files"
    "map y_file (yielded (foldl (\<lambda>st mcd_file. process_mcd_file env cn hpf mcd_file st)
        (process_mcd_file env cn hpf f st) files))
      = map y_file (yielded (process_mcd_file env cn hpf f st)) @ files_in_order files ns"
    using Cons.IH by blast
  show ?case using n ns by (intro exI[of _ "n # ns"]) simp
qed

lemma after_mcd_files_acquisitions:
  "\<forall>y \<in> set (yielded (after_mcd_files env mcds txts cn hpf)). y_acquisition y \<noteq> None"
  unfolding after_mcd_files_def
proof (rule foldl_process_mcd_file_preserves[where
      P = "\<lambda>s::state. \<forall>y \<in> set (yielded s). y_acquisition y \<noteq> None"])
  fix mcd a st res st'
  assume p: "\<forall>y \<in> set (yielded st). y_acquisition y \<noteq> None"
    and r: "process_acquisition env cn hpf mcd a st = (res, st')"
  from process_acquisition_cases[OF r]
  consider "yielded st' = yielded st"
    | y where "yielded st' = yielded st @ [y]" "y_acquisition y = Some a"
    by auto
  then show "\<forall>y \<in> set (yielded st'). y_acquisition y \<noteq> None"
    using p by cases auto
qed simp_all

lemma after_mcd_files_unmatched:
  "subseq (unmatched_txt_files (after_mcd_files env mcds txts cn hpf)) txts"
  unfolding after_mcd_files_def
proof (rule foldl_process_mcd_file_preserves[where
      P = "\<lambda>s::state. subseq (unmatched_txt_files s) txts"])
  fix mcd a st res st'
  assume p: "subseq (unmatched_txt_files st) txts"
    and r: "process_acquisition env cn hpf mcd a st = (res, st')"
  from process_acquisition_cases[OF r] obtain m where
    "unmatched_txt_files st' = (case m of None \<Rightarrow> unmatched_txt_files st
           | Some t \<Rightarrow> remove1 t (unmatched_txt_files st))" by blast
  then have "subseq (unmatched_txt_files st') (unmatched_txt_files st)"
    by (cases m) (simp_all add: subseq_remove1)
  then show "subseq (unmatched_txt_files st') txts" using p by (rule subseq_order.trans)
qed simp_all

lemma sorted_by_stem_reversed_permutation:
  assumes "mset mcd_files' = mset mcd_files"
    and "distinct (map (\<lambda>f. stem (Path f)) mcd_files)"
  shows "sorted_by_stem_reversed mcd_files' = sorted_by_stem_reversed mcd_files"
proof -
  let ?k = "\<lambda>f. stem (Path f)"
  have s: "set mcd_files' = set mcd_files" using assms(1) by (rule mset_eq_setD)
  have "inj_on ?k (set mcd_files)" using assms(2) by (simp add: distinct_map)
  then have inj: "inj_on ?k (set (rev mcd_files'))" using s by simp
  have m: "mset (rev mcd_files') = mset (sort_key ?k (rev mcd_files))" using assms(1) by simp
  have "sort_key ?k (rev mcd_files') = sort_key ?k (rev mcd_files)"
    using m inj by (rule sort_key_inj_key_eq) simp
  then show ?thesis by (simp add: sorted_by_stem_reversed_def)
qed

section \<open>Missing channels and recovery\<close>

lemma get_channel_indices_missing:
  "\<not> set requested \<subseteq> set names \<Longrightarrow>
     \<exists>c. get_channel_indices names requested = Inl c \<and> c \<in> set requested \<and> c \<notin> set names"
proof (induction requested)
  case Nil
  then show ?case by simp
next
  case (Cons c cs)
  show ?case
  proof (cases "c \<in> set names")
    case False
    then show ?thesis by (intro exI[of _ c]) simp
  next
    case True
    then have "\<not> set cs \<subseteq> set names" using Cons.prems by simp
    then obtain c' where "get_channel_indices names cs = Inl c'" "c' \<in> set cs"
      "c' \<notin> set names" using Cons.IH by blast
    then show ?thesis using True by (intro exI[of _ c']) simp
  qed
qed

lemma get_channel_indices_present:
  "set requested \<subseteq> set names \<Longrightarrow>
     get_channel_indices names requested = Inr (map (index_of names) requested)"
  by (induction requested) auto

lemma channel_ind_of_missing:
  "\<not> set requested \<subseteq> set names \<Longrightarrow>
     \<exists>c. channel_ind_of (Some requested) names = Inl c \<and> c \<in> set requested \<and> c \<notin> set names"
  using get_channel_indices_missing[of requested names]
  by (auto simp add: channel_ind_of_def)

lemma recovered_only_after_IOError:
  "\<forall>y \<in> set (yielded (try_preprocess_images_from_disk env mcd_files txt_files cn hpf)).
     y_recovered y \<longrightarrow> (\<exists>a t. y_acquisition y = Some a \<and> y_txt_file y = Some t
        \<and> read_acquisition env (y_file y) a = Inl IOError)"
proof -
  let ?P = "\<lambda>s::state. \<forall>y \<in> set (yielded s). y_recovered y \<longrightarrow>
     (\<exists>a t. y_acquisition y = Some a \<and> y_txt_file y = Some t
        \<and> read_acquisition env (y_file y) a = Inl IOError)"
  let ?st1 = "after_mcd_files env mcd_files txt_files cn hpf"
  have P1: "?P ?st1" unfolding after_mcd_files_def
  proof (rule foldl_process_mcd_file_preserves[where P = ?P])
    fix mcd a and st st' :: state and res
    assume p: "?P st" and r: "process_acquisition env cn hpf mcd a st = (res, st')"
    from process_acquisition_cases[OF r]
    consider "yielded st' = yielded st"
      | y where "yielded st' = yielded st @ [y]"
        "y_recovered y \<longrightarrow> (\<exists>a t. y_acquisition y = Some a \<and> y_txt_file y = Some t
            \<and> read_acquisition env (y_file y) a = Inl IOError)"
      by auto
    then show "?P st'" using p by cases auto
  qed simp_all
  obtain ys where ys: "yielded (try_preprocess_images_from_disk env mcd_files txt_files cn hpf)
        = yielded ?st1 @ ys"
    "\<forall>y \<in> set ys. y_acquisition y = None \<and> y_txt_file y = None \<and> \<not> y_recovered y"
    using process_txt_files_yields[of env cn hpf "unmatched_txt_files ?st1" ?st1]
    by (auto simp add: try_preprocess_images_from_disk_def Let_def)
  show ?thesis unfolding ys(1) using P1 ys(2) by auto
qed

section \<open>Properties of try\_preprocess\_images\_from\_disk\<close>

subsection \<open>Txt files are consumed once\<close>

text \<open>
  C9, amended: when no path occurs twice among the input txt files, no txt file path
  appears in more than one yielded tuple; every txt file of a tuple is an input file; every
  standalone tuple comes from a txt file still unmatched after the loop over the MCD files,
  and the txt file matched to an acquisition is no longer among those.
\<close>

theorem txt_files_consumed_once:
  assumes "distinct (map Path txt_files)"
  shows "distinct (txt_files_of (yielded (try_preprocess_images_from_disk env mcd_files txt_files cn hpf)))
    \<and> set (txt_files_of (yielded (try_preprocess_images_from_disk env mcd_files txt_files cn hpf)))
        \<subseteq> Path ` set txt_files
    \<and> (\<forall>y \<in> set (yielded (try_preprocess_images_from_disk env mcd_files txt_files cn hpf)).
         case y_acquisition y of
           None \<Rightarrow> y_file y \<in> Path ` set (unmatched_txt_files
                      (after_mcd_files env mcd_files txt_files cn hpf))
         | Some a \<Rightarrow> (\<forall>t. y_txt_file y = Some t \<longrightarrow> t \<notin> Path ` set (unmatched_txt_files
                      (after_mcd_files env mcd_files txt_files cn hpf))))"
proof -
  let ?st1 = "after_mcd_files env mcd_files txt_files cn hpf"
  let ?U = "unmatched_txt_files ?st1"
  have inv: "mcd_phase_inv txt_files ?st1" using assms by (rule mcd_phase_inv_after)
  obtain ys where fin: "yielded (try_preprocess_images_from_disk env mcd_files txt_files cn hpf)
        = yielded ?st1 @ ys"
    and sq: "subseq (map y_file ys) (map Path ?U)"
    and none: "\<forall>y \<in> set ys. y_acquisition y = None \<and> y_txt_file y = None \<and> \<not> y_recovered y"
    using process_txt_files_yields[of env cn hpf ?U ?st1]
    by (auto simp add: try_preprocess_images_from_disk_def Let_def)
  have tys: "txt_files_of ys = map y_file ys"
    using none by (induction ys) (auto simp add: txt_files_of_def txt_file_of_def)
  have sub: "set ?U \<subseteq> set txt_files" and dU: "distinct (map Path ?U)"
    and dY: "distinct (txt_files_of (yielded ?st1))"
    and sY: "set (txt_files_of (yielded ?st1)) \<subseteq> Path ` set txt_files - Path ` set ?U"
    and aY: "\<forall>y \<in> set (yielded ?st1). y_acquisition y \<noteq> None"
    using inv by (simp_all add: mcd_phase_inv_def)
  have d2: "distinct (map y_file ys)" using sq dU by (rule subseq_distinct_imp)
  have s2: "set (map y_file ys) \<subseteq> Path ` set ?U" using list_emb_set[OF sq] by auto
  have disj: "set (txt_files_of (yielded ?st1)) \<inter> set (map y_file ys) = {}"
    using sY s2 by blast
  have c1: "distinct (txt_files_of (yielded ?st1 @ ys))"
    using dY d2 disj tys by simp
  have s3: "set (map y_file ys) \<subseteq> Path ` set txt_files" using s2 sub by blast
  have c2: "set (txt_files_of (yielded ?st1 @ ys)) \<subseteq> Path ` set txt_files"
    using sY s3 tys by auto
  have c3: "\<forall>y \<in> set (yielded ?st1 @ ys). case y_acquisition y of
           None \<Rightarrow> y_file y \<in> Path ` set ?U
         | Some a \<Rightarrow> (\<forall>t. y_txt_file y = Some t \<longrightarrow> t \<notin> Path ` set ?U)"
  proof
    fix y assume "y \<in> set (yielded ?st1 @ ys)"
    then consider "y \<in> set (yielded ?st1)" | "y \<in> set ys" by auto
    then show "case y_acquisition y of
           None \<Rightarrow> y_file y \<in> Path ` set ?U
         | Some a \<Rightarrow> (\<forall>t. y_txt_file y = Some t \<longrightarrow> t \<notin> Path ` set ?U)"
    proof cases
      case 1
      then obtain a where a: "y_acquisition y = Some a" using aY by auto
      have "set (txt_file_of y) \<subseteq> set (txt_files_of (yielded ?st1))"
        using 1 by (auto simp add: txt_files_of_def)
      then have "\<forall>t. y_txt_file y = Some t \<longrightarrow> t \<notin> Path ` set ?U"
        using sY a by (auto simp add: txt_file_of_def)
      then show ?thesis using a by simp
    next
      case 2
      then have "y_acquisition y = None" "y_file y \<in> Path ` set ?U" using none s2 by auto
      then show ?thesis by simp
    qed
  qed
  show ?thesis unfolding fin using c1 c2 c3 by blast
qed

theorem txt_files_consumed_once_witness:
  "distinct (map Path [Str ''c.txt'', Str ''a_1.txt''])
   \<and> txt_files_of (yielded (try_preprocess_images_from_disk disk0
        [Str ''a.mcd'', Str ''b.mcd''] [Str ''c.txt'', Str ''a_1.txt''] None None))
      = [''a_1.txt'', ''c.txt'']
   \<and> distinct (txt_files_of (yielded (try_preprocess_images_from_disk disk0
        [Str ''a.mcd'', Str ''b.mcd''] [Str ''c.txt'', Str ''a_1.txt''] None None)))"
proof -
  have h: "distinct (map Path [Str ''c.txt'', Str ''a_1.txt''])" by simp
  have e: "txt_files_of (yielded (try_preprocess_images_from_disk disk0
        [Str ''a.mcd'', Str ''b.mcd''] [Str ''c.txt'', Str ''a_1.txt''] None None))
      = [''a_1.txt'', ''c.txt'']" by code_simp
  show ?thesis
    using h e txt_files_consumed_once [OF h, of disk0 "[Str ''a.mcd'', Str ''b.mcd'']" None None]
    by blast
qed

text \<open>
  C9 as stated fails when a path occurs twice in the input txt files: both copies match
  together or not at all, none is removed, and the same path is yielded twice.
\<close>

theorem txt_file_yielded_twice_counterexample:
  "map summary (yielded (try_preprocess_images_from_disk disk0 []
       [Str ''a.txt'', Str ''a.txt''] None None))
     = [(''a.txt'', None, False, [2, 3, 4]), (''a.txt'', None, False, [2, 3, 4])]
   \<and> \<not> distinct (txt_files_of (yielded (try_preprocess_images_from_disk disk0 []
       [Str ''a.txt'', Str ''a.txt''] None None)))"
  by code_simp

subsection \<open>MCD files first, in descending order of their stems\<close>

text \<open>
  C10: the MCD files are processed in the order \<open>sorted_by_stem_reversed\<close> gives them, a
  rearrangement of the input in descending order of the stems, whatever the input order;
  the tuples of the MCD files come first, file by file in that order (\<open>ns ! i\<close> tuples for
  the \<open>i\<close>-th file), and after them the tuples of the standalone txt files, in the order
  of the input txt files. When the stems are pairwise different, rearranging the input MCD
  files changes nothing at all.
\<close>

theorem mcd_files_descending_then_txt_files:
  "\<exists>ns ys. length ns = length mcd_files
     \<and> map y_file (yielded (after_mcd_files env mcd_files txt_files cn hpf))
         = files_in_order (sorted_by_stem_reversed mcd_files) ns
     \<and> mset (sorted_by_stem_reversed mcd_files) = mset mcd_files
     \<and> sorted_wrt (\<lambda>a b. b \<le> a)
         (map (\<lambda>f. stem (Path f)) (sorted_by_stem_reversed mcd_files))
     \<and> sorted_wrt (\<lambda>a b. b \<le> a)
         (map stem (map y_file (yielded (after_mcd_files env mcd_files txt_files cn hpf))))
     \<and> (\<forall>y \<in> set (yielded (after_mcd_files env mcd_files txt_files cn hpf)).
           y_acquisition y \<noteq> None)
     \<and> yielded (try_preprocess_images_from_disk env mcd_files txt_files cn hpf)
         = yielded (after_mcd_files env mcd_files txt_files cn hpf) @ ys
     \<and> (\<forall>y \<in> set ys. y_acquisition y = None)
     \<and> subseq (map y_file ys) (map Path txt_files)
     \<and> (\<forall>mcd_files'. mset mcd_files' = mset mcd_files
           \<and> distinct (map (\<lambda>f. stem (Path f)) mcd_files) \<longrightarrow>
           try_preprocess_images_from_disk env mcd_files' txt_files cn hpf
             = try_preprocess_images_from_disk env mcd_files txt_files cn hpf)"
proof -
  let ?st1 = "after_mcd_files env mcd_files txt_files cn hpf"
  let ?fs = "sorted_by_stem_reversed mcd_files"
  obtain ns where ns: "length ns = length ?fs" "map y_file (yielded ?st1) = files_in_order ?fs ns"
    using foldl_process_mcd_file_files[of ?fs env cn hpf
        "\<lparr>unmatched_txt_files = txt_files, yielded = [], logged = []\<rparr>"]
    by (auto simp add: after_mcd_files_def)
  have len: "length ns = length mcd_files"
    using ns(1) by (simp add: sorted_by_stem_reversed_def)
  obtain ys where ys: "yielded (try_preprocess_images_from_disk env mcd_files txt_files cn hpf)
        = yielded ?st1 @ ys"
    "subseq (map y_file ys) (map Path (unmatched_txt_files ?st1))"
    "\<forall>y \<in> set ys. y_acquisition y = None \<and> y_txt_file y = None \<and> \<not> y_recovered y"
    using process_txt_files_yields[of env cn hpf "unmatched_txt_files ?st1" ?st1]
    by (auto simp add: try_preprocess_images_from_disk_def Let_def)
  have "subseq (map Path (unmatched_txt_files ?st1)) (map Path txt_files)"
    using after_mcd_files_unmatched by (rule subseq_map)
  then have sq: "subseq (map y_file ys) (map Path txt_files)"
    using ys(2) subseq_order.trans by blast
  have desc: "sorted_wrt (\<lambda>a b. b \<le> a) (map stem (map y_file (yielded ?st1)))"
    unfolding ns(2) by (rule files_in_order_descending[OF sorted_by_stem_reversed_descending])
  have perm: "\<forall>mcd_files'. mset mcd_files' = mset mcd_files
           \<and> distinct (map (\<lambda>f. stem (Path f)) mcd_files) \<longrightarrow>
           try_preprocess_images_from_disk env mcd_files' txt_files cn hpf
             = try_preprocess_images_from_disk env mcd_files txt_files cn hpf"
  proof (intro allI impI)
    fix mcd_files'
    assume h: "mset mcd_files' = mset mcd_files
           \<and> distinct (map (\<lambda>f. stem (Path f)) mcd_files)"
    then have "sorted_by_stem_reversed mcd_files' = sorted_by_stem_reversed mcd_files"
      by (intro sorted_by_stem_reversed_permutation) simp_all
    then have "after_mcd_files env mcd_files' txt_files cn hpf
        = after_mcd_files env mcd_files txt_files cn hpf"
      by (simp only: after_mcd_files_def)
    then show "try_preprocess_images_from_disk env mcd_files' txt_files cn hpf
             = try_preprocess_images_from_disk env mcd_files txt_files cn hpf"
      by (simp only: try_preprocess_images_from_disk_def)
  qed
  have none: "\<forall>y \<in> set ys. y_acquisition y = None" using ys(3) by simp
  show ?thesis
  proof (intro exI[of _ ns] exI[of _ ys] conjI)
    show "length ns = length mcd_files" by (rule len)
    show "map y_file (yielded ?st1) = files_in_order ?fs ns" by (rule ns(2))
    show "mset ?fs = mset mcd_files" by (rule mset_sorted_by_stem_reversed)
    show "sorted_wrt (\<lambda>a b. b \<le> a) (map (\<lambda>f. stem (Path f)) ?fs)"
      by (rule sorted_by_stem_reversed_descending)
    show "sorted_wrt (\<lambda>a b. b \<le> a) (map stem (map y_file (yielded ?st1)))" by (rule desc)
    show "\<forall>y \<in> set (yielded ?st1). y_acquisition y \<noteq> None"
      by (rule after_mcd_files_acquisitions)
    show "yielded (try_preprocess_images_from_disk env mcd_files txt_files cn hpf)
        = yielded ?st1 @ ys" by (rule ys(1))
    show "\<forall>y \<in> set ys. y_acquisition y = None" by (rule none)
    show "subseq (map y_file ys) (map Path txt_files)" by (rule sq)
    show "\<forall>mcd_files'. mset mcd_files' = mset mcd_files
           \<and> distinct (map (\<lambda>f. stem (Path f)) mcd_files) \<longrightarrow>
           try_preprocess_images_from_disk env mcd_files' txt_files cn hpf
             = try_preprocess_images_from_disk env mcd_files txt_files cn hpf" by (rule perm)
  qed
qed

theorem mcd_files_descending_then_txt_files_witness:
  "map summary (yielded (try_preprocess_images_from_disk disk0
        [Str ''a.mcd'', Str ''b.mcd''] [Str ''c.txt'', Str ''a_1.txt''] None None))
      = [(''b.mcd'', None, False, [2, 3, 4]), (''a.mcd'', Some ''a_1.txt'', True, [2, 3, 4]),
         (''c.txt'', None, False, [2, 3, 4])]
   \<and> sorted_by_stem_reversed [Str ''a.mcd'', Str ''b.mcd''] = [Str ''b.mcd'', Str ''a.mcd'']
   \<and> sorted_wrt (\<lambda>a b. b \<le> a) (map stem (map y_file (yielded (after_mcd_files disk0
        [Str ''a.mcd'', Str ''b.mcd''] [Str ''c.txt'', Str ''a_1.txt''] None None))))"
proof -
  have e: "map summary (yielded (try_preprocess_images_from_disk disk0
        [Str ''a.mcd'', Str ''b.mcd''] [Str ''c.txt'', Str ''a_1.txt''] None None))
      = [(''b.mcd'', None, False, [2, 3, 4]), (''a.mcd'', Some ''a_1.txt'', True, [2, 3, 4]),
         (''c.txt'', None, False, [2, 3, 4])]" by code_simp
  have s: "sorted_by_stem_reversed [Str ''a.mcd'', Str ''b.mcd''] = [Str ''b.mcd'', Str ''a.mcd'']"
    by code_simp
  show ?thesis
    using e s mcd_files_descending_then_txt_files [of "[Str ''a.mcd'', Str ''b.mcd'']" disk0
        "[Str ''c.txt'', Str ''a_1.txt'']" None None]
    by blast
qed

subsection \<open>A missing channel skips the acquisition\<close>

text \<open>
  C3: with \<open>channel_names\<close> given, an acquisition lacking a requested channel is skipped:
  for an MCD acquisition the loop body yields nothing and, once the txt matching has
  returned, ends normally with the warning logged; the same holds for the txt file an
  acquisition is restored from, once it has been read; a standalone txt file lacking a
  requested channel yields nothing and logs the warning. Every exception of a loop body
  ends in the log of \<open>process_mcd_file\<close> or \<open>process_txt_file\<close>, whose results are states:
  none reaches the caller.
\<close>

theorem missing_channel_skips_acquisition:
  assumes "cn = Some requested"
  shows "(\<not> set requested \<subseteq> set (channel_names a) \<longrightarrow>
       yielded (snd (process_acquisition env cn hpf mcd_file a st)) = yielded st
     \<and> (\<forall>m ws. match_txt_file env mcd_file a (unmatched_txt_files st) = Inr (m, ws) \<longrightarrow>
          fst (process_acquisition env cn hpf mcd_file a st) = None
        \<and> (\<exists>c. c \<in> set requested \<and> c \<notin> set (channel_names a)
             \<and> (WARNING, ChannelNotFoundForAcquisition c (acq_id a))
                 \<in> set (logged (snd (process_acquisition env cn hpf mcd_file a st))))))
   \<and> (\<forall>f t ws. set requested \<subseteq> set (channel_names a)
        \<and> read_acquisition env (Path mcd_file) a = Inl IOError
        \<and> match_txt_file env mcd_file a (unmatched_txt_files st) = Inr (Some t, ws)
        \<and> TXTFile env (Path t) = Inr f \<and> \<not> set requested \<subseteq> set (txt_channel_names f) \<longrightarrow>
       yielded (snd (process_acquisition env cn hpf mcd_file a st)) = yielded st
     \<and> (\<forall>img. txt_read_acquisition f = Inr img \<longrightarrow>
          fst (process_acquisition env cn hpf mcd_file a st) = None
        \<and> (\<exists>c. c \<in> set requested \<and> c \<notin> set (txt_channel_names f)
             \<and> (WARNING, ChannelNotFoundInFile c t)
                 \<in> set (logged (snd (process_acquisition env cn hpf mcd_file a st))))))
   \<and> (\<forall>f. TXTFile env (Path txt_file) = Inr f \<and> \<not> set requested \<subseteq> set (txt_channel_names f) \<longrightarrow>
       yielded (process_txt_file env cn hpf txt_file st) = yielded st
     \<and> (\<exists>c. c \<in> set requested \<and> c \<notin> set (txt_channel_names f)
          \<and> (WARNING, ChannelNotFoundInFile c txt_file)
              \<in> set (logged (process_txt_file env cn hpf txt_file st))))"
proof (intro conjI allI impI)
  assume miss: "\<not> set requested \<subseteq> set (channel_names a)"
  obtain c where c: "channel_ind_of cn (channel_names a) = Inl c" "c \<in> set requested"
    "c \<notin> set (channel_names a)"
    using channel_ind_of_missing[OF miss] assms by blast
  show "yielded (snd (process_acquisition env cn hpf mcd_file a st)) = yielded st"
    using c(1) by (auto simp add: process_acquisition_def Let_def split: sum.splits option.splits)
  fix m ws assume "match_txt_file env mcd_file a (unmatched_txt_files st) = Inr (m, ws)"
  then have r: "process_acquisition env cn hpf mcd_file a st
      = (None, log WARNING (ChannelNotFoundForAcquisition c (acq_id a))
           (st\<lparr>unmatched_txt_files := (case m of None \<Rightarrow> unmatched_txt_files st
                   | Some t \<Rightarrow> remove1 t (unmatched_txt_files st)),
               logged := logged st @ ws\<rparr>))"
    using c(1) by (simp add: process_acquisition_def Let_def)
  show "fst (process_acquisition env cn hpf mcd_file a st) = None" using r by simp
  show "\<exists>c. c \<in> set requested \<and> c \<notin> set (channel_names a)
      \<and> (WARNING, ChannelNotFoundForAcquisition c (acq_id a))
          \<in> set (logged (snd (process_acquisition env cn hpf mcd_file a st)))"
    using r c by (intro exI[of _ c]) simp
next
  fix f t ws
  assume h: "set requested \<subseteq> set (channel_names a)
        \<and> read_acquisition env (Path mcd_file) a = Inl IOError
        \<and> match_txt_file env mcd_file a (unmatched_txt_files st) = Inr (Some t, ws)
        \<and> TXTFile env (Path t) = Inr f \<and> \<not> set requested \<subseteq> set (txt_channel_names f)"
  then obtain c where c: "channel_ind_of cn (txt_channel_names f) = Inl c" "c \<in> set requested"
    "c \<notin> set (txt_channel_names f)"
    using channel_ind_of_missing[of requested "txt_channel_names f"] assms by blast
  have ok: "channel_ind_of cn (channel_names a) = Inr (Some (map (index_of (channel_names a)) requested))"
    using h assms by (simp add: channel_ind_of_def get_channel_indices_present)
  show "yielded (snd (process_acquisition env cn hpf mcd_file a st)) = yielded st"
    using h ok c(1)
    by (auto simp add: process_acquisition_def restore_from_txt_def Let_def split: sum.splits)
  fix img assume img: "txt_read_acquisition f = Inr img"
  show "fst (process_acquisition env cn hpf mcd_file a st) = None"
    using h ok c(1) img
    by (simp add: process_acquisition_def restore_from_txt_def Let_def)
  show "\<exists>c. c \<in> set requested \<and> c \<notin> set (txt_channel_names f)
      \<and> (WARNING, ChannelNotFoundInFile c t)
          \<in> set (logged (snd (process_acquisition env cn hpf mcd_file a st)))"
    using h ok c img
    by (intro exI[of _ c]) (simp add: process_acquisition_def restore_from_txt_def Let_def)
next
  fix f
  assume h: "TXTFile env (Path txt_file) = Inr f \<and> \<not> set requested \<subseteq> set (txt_channel_names f)"
  then obtain c where c: "channel_ind_of cn (txt_channel_names f) = Inl c" "c \<in> set requested"
    "c \<notin> set (txt_channel_names f)"
    using channel_ind_of_missing[of requested "txt_channel_names f"] assms by blast
  have r: "process_txt_file env cn hpf txt_file st = log WARNING (ChannelNotFoundInFile c txt_file) st"
    using h c(1) by (simp add: process_txt_file_def)
  show "yielded (process_txt_file env cn hpf txt_file st) = yielded st" using r by simp
  show "\<exists>c. c \<in> set requested \<and> c \<notin> set (txt_channel_names f)
      \<and> (WARNING, ChannelNotFoundInFile c txt_file)
          \<in> set (logged (process_txt_file env cn hpf txt_file st))"
    using r c by (intro exI[of _ c]) simp
qed

theorem missing_channel_skips_acquisition_witness:
  "yielded (snd (process_acquisition disk0 (Some [''Ir191'']) None (Str ''a.mcd'') acq2
       (state0 [Str ''x.txt'']))) = []
   \<and> fst (process_acquisition disk0 (Some [''Ir191'']) None (Str ''a.mcd'') acq2
       (state0 [Str ''x.txt''])) = None
   \<and> yielded (process_txt_file disk0 (Some [''Ir191'']) None (Str ''x.txt'')
       (state0 [])) = []"
proof -
  note T = missing_channel_skips_acquisition [OF refl, of "[''Ir191'']" acq2 disk0 None
      "Str ''a.mcd''" "state0 [Str ''x.txt'']" "Str ''x.txt''"]
  have 1: "\<not> set [''Ir191''] \<subseteq> set (channel_names acq2)" by (simp add: acq2_def)
  have 2: "match_txt_file disk0 (Str ''a.mcd'') acq2 (unmatched_txt_files (state0 [Str ''x.txt'']))
     = Inr (None, [])" by code_simp
  note U = missing_channel_skips_acquisition [OF refl, of "[''Ir191'']" acq2 disk0 None
      "Str ''a.mcd''" "state0 []" "Str ''x.txt''"]
  define f where "f = \<lparr>txt_channel_names = [''Ir193''], txt_channel_labels = [''DNA2''],
      txt_read_acquisition = Inr img0\<rparr>"
  have f: "TXTFile disk0 (Path (Str ''x.txt'')) = Inr f"
    "\<not> set [''Ir191''] \<subseteq> set (txt_channel_names f)"
    by (simp_all add: disk0_def f_def)
  have a: "yielded (snd (process_acquisition disk0 (Some [''Ir191'']) None (Str ''a.mcd'') acq2
       (state0 [Str ''x.txt'']))) = yielded (state0 [Str ''x.txt''])"
    and b: "fst (process_acquisition disk0 (Some [''Ir191'']) None (Str ''a.mcd'') acq2
       (state0 [Str ''x.txt''])) = None"
    using T 1 2 by blast+
  have c: "yielded (process_txt_file disk0 (Some [''Ir191'']) None (Str ''x.txt'')
       (state0 [])) = yielded (state0 [])"
    using U f by blast
  show ?thesis using a b c by (simp add: state0_def)
qed

subsection \<open>Recovery from the txt file\<close>

text \<open>
  C2, amended: for an acquisition whose binary read raises \<open>IOError\<close> (the read is reached,
  so the acquisition has the requested channels): if a txt file was matched, opening and
  reading it succeed, it has every requested channel, and the channel selection and the
  preprocessing succeed, then exactly one tuple is yielded, holding the image read from
  the txt file (channels selected, preprocessed), the matched txt path and
  \<open>recovered = True\<close>; if no txt file was matched, or opening or reading it fails, nothing is
  yielded. Over a whole run, a tuple with \<open>recovered = True\<close> belongs to an acquisition
  whose binary read raised \<open>IOError\<close> and carries a txt file: the tuples of successful
  binary reads and of standalone txt files have \<open>recovered = False\<close>.
\<close>

theorem recovery_replaces_failed_binary_read:
  assumes "read_acquisition env (Path mcd_file) a = Inl IOError"
    and "channel_ind_of cn (channel_names a) = Inr ci"
    and "match_txt_file env mcd_file a (unmatched_txt_files st) = Inr (m, ws)"
  shows "(\<forall>t f img ci' img1 img2.
        m = Some t \<and> TXTFile env (Path t) = Inr f \<and> txt_read_acquisition f = Inr img
        \<and> channel_ind_of cn (txt_channel_names f) = Inr ci'
        \<and> (case ci' of None \<Rightarrow> Inr img | Some ix \<Rightarrow> take_channels img ix) = Inr img1
        \<and> preprocess_image (to_dtype env) img1 hpf = Inr img2 \<longrightarrow>
        fst (process_acquisition env cn hpf mcd_file a st) = None
        \<and> yielded (snd (process_acquisition env cn hpf mcd_file a st)) = yielded st @
            [\<lparr>y_file = Path mcd_file, y_acquisition = Some a, y_img = img2,
              y_txt_file = Some (Path t), y_recovered = True\<rparr>])
    \<and> ((m = None \<or> (\<exists>t e. m = Some t \<and> (TXTFile env (Path t) = Inl e
            \<or> (\<exists>f. TXTFile env (Path t) = Inr f \<and> txt_read_acquisition f = Inl e)))) \<longrightarrow>
        yielded (snd (process_acquisition env cn hpf mcd_file a st)) = yielded st)
    \<and> (\<forall>y \<in> set (yielded (try_preprocess_images_from_disk env mcd_files txt_files cn hpf)).
         y_recovered y \<longrightarrow> (\<exists>a' t'. y_acquisition y = Some a' \<and> y_txt_file y = Some t'
            \<and> read_acquisition env (y_file y) a' = Inl IOError))"
proof (intro conjI allI impI ballI)
  fix t f img ci' img1 img2
  assume "m = Some t \<and> TXTFile env (Path t) = Inr f \<and> txt_read_acquisition f = Inr img
        \<and> channel_ind_of cn (txt_channel_names f) = Inr ci'
        \<and> (case ci' of None \<Rightarrow> Inr img | Some ix \<Rightarrow> take_channels img ix) = Inr img1
        \<and> preprocess_image (to_dtype env) img1 hpf = Inr img2"
  then have r: "process_acquisition env cn hpf mcd_file a st = (None,
      (log WARNING (RestoringFromFile t) (log WARNING (ErrorReadingAcquisition (acq_id a) mcd_file IOError)
         (st\<lparr>unmatched_txt_files := remove1 t (unmatched_txt_files st),
             logged := logged st @ ws\<rparr>)))
       \<lparr>yielded := yielded st @
            [\<lparr>y_file = Path mcd_file, y_acquisition = Some a, y_img = img2,
              y_txt_file = Some (Path t), y_recovered = True\<rparr>]\<rparr>)"
    using assms
    by (simp add: process_acquisition_def restore_from_txt_def yield_image_def Let_def)
  show "fst (process_acquisition env cn hpf mcd_file a st) = None" using r by simp
  show "yielded (snd (process_acquisition env cn hpf mcd_file a st)) = yielded st @
            [\<lparr>y_file = Path mcd_file, y_acquisition = Some a, y_img = img2,
              y_txt_file = Some (Path t), y_recovered = True\<rparr>]" using r by simp
next
  assume "m = None \<or> (\<exists>t e. m = Some t \<and> (TXTFile env (Path t) = Inl e
            \<or> (\<exists>f. TXTFile env (Path t) = Inr f \<and> txt_read_acquisition f = Inl e)))"
  then show "yielded (snd (process_acquisition env cn hpf mcd_file a st)) = yielded st"
    using assms
    by (auto simp add: process_acquisition_def restore_from_txt_def Let_def)
next
  fix y
  assume "y \<in> set (yielded (try_preprocess_images_from_disk env mcd_files txt_files cn hpf))"
    and "y_recovered y"
  then show "\<exists>a' t'. y_acquisition y = Some a' \<and> y_txt_file y = Some t'
            \<and> read_acquisition env (y_file y) a' = Inl IOError"
    using recovered_only_after_IOError by blast
qed

theorem recovery_replaces_failed_binary_read_witness:
  "map summary (yielded (snd (process_acquisition disk0 (Some [''Ir191'']) None (Str ''a.mcd'')
        acq1 (state0 [Str ''a_1.txt'']))))
     = [(''a.mcd'', Some ''a_1.txt'', True, [1, 3, 4])]"
proof -
  have 1: "read_acquisition disk0 (Path (Str ''a.mcd'')) acq1 = Inl IOError"
    by (simp add: disk0_def)
  have 2: "channel_ind_of (Some [''Ir191'']) (channel_names acq1) = Inr (Some [0])"
    by code_simp
  have 3: "match_txt_file disk0 (Str ''a.mcd'') acq1 (unmatched_txt_files (state0 [Str ''a_1.txt'']))
       = Inr (Some (Str ''a_1.txt''), [])" by code_simp
  define f where "f = \<lparr>txt_channel_names = [''Ir191''], txt_channel_labels = [''DNA1''],
      txt_read_acquisition = Inr img0\<rparr>"
  have f: "TXTFile disk0 (Path (Str ''a_1.txt'')) = Inr f"
    "txt_read_acquisition f = Inr img0" "txt_channel_names f = [''Ir191'']"
    by (simp_all add: disk0_def f_def)
  have 4: "channel_ind_of (Some [''Ir191'']) (txt_channel_names f) = Inr (Some [0])"
    unfolding f(3) by code_simp
  obtain img1 where img1: "take_channels img0 [0] = Inr img1" "shape img1 = [1, 3, 4]"
    by (auto simp add: take_channels_def img0_def)
  have 5: "preprocess_image (to_dtype disk0) img1 None = Inr (img1\<lparr>dtype := Floating\<rparr>)"
    by (simp add: preprocess_image_def disk0_def)
  have "yielded (snd (process_acquisition disk0 (Some [''Ir191'']) None (Str ''a.mcd'')
        acq1 (state0 [Str ''a_1.txt''])))
     = yielded (state0 [Str ''a_1.txt'']) @ [\<lparr>y_file = Path (Str ''a.mcd''), y_acquisition = Some acq1,
         y_img = img1\<lparr>dtype := Floating\<rparr>, y_txt_file = Some (Path (Str ''a_1.txt'')),
         y_recovered = True\<rparr>]"
    using recovery_replaces_failed_binary_read [OF 1 2 3] f(1,2) 4 img1(1) 5 by simp
  then show ?thesis using img1(2) by (simp add: state0_def summary_def)
qed

text \<open>
  C2 as stated fails when \<open>channel_names\<close> is given and the matched txt file lacks a
  requested channel: the binary read raises \<open>IOError\<close>, the txt file is matched and read,
  and nothing is yielded.
\<close>

theorem recovery_skipped_counterexample:
  "read_acquisition disk0 (Path (Str ''a.mcd'')) acq1 = Inl IOError
   \<and> match_txt_file disk0 (Str ''a.mcd'') acq1 [Str ''a_x_1.txt'']
       = Inr (Some (Str ''a_x_1.txt''), [])
   \<and> (\<exists>f img. TXTFile disk0 (Path (Str ''a_x_1.txt'')) = Inr f \<and> txt_read_acquisition f = Inr img)
   \<and> yielded (try_preprocess_images_from_disk disk0 [Str ''a.mcd''] [Str ''a_x_1.txt'']
        (Some [''Ir191'']) None) = []"
proof -
  have 1: "read_acquisition disk0 (Path (Str ''a.mcd'')) acq1 = Inl IOError"
    by (simp add: disk0_def)
  have 2: "match_txt_file disk0 (Str ''a.mcd'') acq1 [Str ''a_x_1.txt'']
       = Inr (Some (Str ''a_x_1.txt''), [])" by code_simp
  have 3: "\<exists>f img. TXTFile disk0 (Path (Str ''a_x_1.txt'')) = Inr f \<and> txt_read_acquisition f = Inr img"
    by (simp add: disk0_def)
  have 4: "map summary (yielded (try_preprocess_images_from_disk disk0 [Str ''a.mcd''] [Str ''a_x_1.txt'']
        (Some [''Ir191'']) None)) = []" by code_simp
  show ?thesis using 1 2 3 4 by simp
qed

section \<open>Matching txt files\<close>

lemma match_txt_file_unique:
  assumes "re_compile env (stem (Path mcd_file) @ ''.*_0*'' @ str_nat (acq_id a) @ ''.txt'') = Inr pat"
    and "filter (\<lambda>t. pat (name_of (Path t))) txt_files = [t]"
  shows "match_txt_file env mcd_file a txt_files = Inr (Some t, [])"
  using assms by (simp add: match_txt_file_def)

lemma match_txt_file_no_candidate:
  assumes "re_compile env (stem (Path mcd_file) @ ''.*_0*'' @ str_nat (acq_id a) @ ''.txt'') = Inr pat"
    and "filter (\<lambda>t. pat (name_of (Path t))) txt_files = []"
  shows "match_txt_file env mcd_file a txt_files = Inr (None, [])"
  using assms by (simp add: match_txt_file_def)

lemma match_txt_file_ambiguous:
  assumes "re_compile env (stem (Path mcd_file) @ ''.*_0*'' @ str_nat (acq_id a) @ ''.txt'') = Inr pat"
    and "1 < length (filter (\<lambda>t. pat (name_of (Path t))) txt_files)"
  shows "match_txt_file env mcd_file a txt_files =
    (if list_all is_str (filter (\<lambda>t. pat (name_of (Path t))) txt_files)
     then Inr (None, [(WARNING, AmbiguousTxtFileMatching mcd_file
            (filter (\<lambda>t. pat (name_of (Path t))) txt_files))])
     else Inl TypeError)"
  using assms by (simp add: match_txt_file_def)

text \<open>
  C4: \<open>_match_txt_file\<close> is to return \<open>None\<close> on ambiguous matching. With txt files given as
  \<open>Path\<close> objects (as \<open>list_txt_files\<close> returns them) and two matching names, the code raises
  \<open>TypeError\<close> while building the warning; with the same names as \<open>str\<close> it logs the warning
  and returns \<open>None\<close>. In the generator the exception ends the whole MCD file.
\<close>

theorem match_txt_file_ambiguous_paths_raise:
  "match_txt_file disk0 (PathObj ''a.mcd'') acq1 [PathObj ''a_1.txt'', PathObj ''a_x_1.txt'']
     = Inl TypeError
   \<and> match_txt_file disk0 (Str ''a.mcd'') acq1 [Str ''a_1.txt'', Str ''a_x_1.txt'']
     = Inr (None, [(WARNING,
         AmbiguousTxtFileMatching (Str ''a.mcd'') [Str ''a_1.txt'', Str ''a_x_1.txt''])])
   \<and> logged (try_preprocess_images_from_disk disk0 [PathObj ''a.mcd'']
        [PathObj ''a_1.txt'', PathObj ''a_x_1.txt''] None None)
     = [(ERROR, ErrorReadingFile (PathObj ''a.mcd'') TypeError)]"
  by code_simp

section \<open>Cleaning a panel\<close>

lemma move_columns_prefix:
  assumes "distinct (pre @ cs)" and "set cs \<subseteq> set cols" and "take (length pre) cols = pre"
  shows "take (length pre + length cs) (move_columns cs (length pre) cols) = pre @ cs"
  using assms
proof (induction cs arbitrary: pre cols)
  case Nil
  then show ?case by simp
next
  case (Cons c cs)
  let ?i = "length pre"
  let ?cols' = "take ?i (removeAll c cols) @ [c] @ drop ?i (removeAll c cols)"
  have cin: "c \<in> set cols" and cpre: "c \<notin> set pre" and ccs: "c \<notin> set cs"
    using Cons.prems by auto
  have cols: "cols = pre @ drop ?i cols"
    using Cons.prems(3) by (metis append_take_drop_id)
  have rem: "removeAll c cols = pre @ removeAll c (drop ?i cols)"
    using cpre by (subst cols) simp
  have cols': "?cols' = (pre @ [c]) @ removeAll c (drop ?i cols)"
    by (simp add: rem)
  have 1: "distinct ((pre @ [c]) @ cs)" using Cons.prems(1) by simp
  have sc: "set cols = set pre \<union> set (drop ?i cols)" using cols by (metis set_append)
  have 2: "set cs \<subseteq> set ?cols'" unfolding cols' using Cons.prems(2) sc ccs by auto
  have 3: "take (length (pre @ [c])) ?cols' = pre @ [c]" unfolding cols' by simp
  have "take (length (pre @ [c]) + length cs) (move_columns cs (length (pre @ [c])) ?cols')
      = (pre @ [c]) @ cs"
    using Cons.IH[OF 1 2 3] .
  then show ?case using cin by simp
qed

lemma move_columns_front:
  assumes "set panel_columns \<subseteq> set cols"
  shows "take 5 (move_columns panel_columns 0 cols) = panel_columns"
proof -
  have d: "distinct ([] @ panel_columns)" by (simp add: panel_columns_def)
  have "take (length ([]::string list) + length panel_columns)
      (move_columns panel_columns (length ([]::string list)) cols) = [] @ panel_columns"
    using assms by (intro move_columns_prefix[OF d]) simp_all
  moreover have "length panel_columns = 5" by (simp add: panel_columns_def)
  ultimately show ?thesis by simp
qed

lemma number_rows_other_column:
  "c' \<noteq> c \<Longrightarrow> map (\<lambda>r. r c') (number_rows n ms c rs) = map (\<lambda>r. r c') rs"
  by (induction n ms c rs rule: number_rows.induct) auto

lemma length_number_rows [simp]: "length (number_rows n ms c rs) = length rs"
  by (induction n ms c rs rule: number_rows.induct) auto

lemma add_name_suffixes_other_column:
  "c \<noteq> ''name'' \<Longrightarrow> map (\<lambda>r. r c) (add_name_suffixes all_rows seen rs) = map (\<lambda>r. r c) rs"
  by (induction rs arbitrary: seen) auto

lemma length_add_name_suffixes [simp]: "length (add_name_suffixes all_rows seen rs) = length rs"
  by (induction rs arbitrary: seen) auto

lemma default_keep_props:
  "c \<noteq> ''keep'' \<Longrightarrow> map (\<lambda>r. r c) (rows (default_keep p)) = map (\<lambda>r. r c) (rows p)"
  "''keep'' \<notin> set (columns p) \<Longrightarrow> \<forall>r \<in> set (rows (default_keep p)). r ''keep'' = B True"
  "set (columns (default_keep p)) = set (columns p) \<union> {''keep''}"
  by (auto simp add: default_keep_def set_column_def)

lemma default_ilastik_props:
  assumes "default_ilastik p = Inr q"
  shows "c \<noteq> ''ilastik'' \<Longrightarrow> map (\<lambda>r. r c) (rows q) = map (\<lambda>r. r c) (rows p)"
    and "set (columns q) = set (columns p) \<union> {''ilastik''}"
proof -
  show "c \<noteq> ''ilastik'' \<Longrightarrow> map (\<lambda>r. r c) (rows q) = map (\<lambda>r. r c) (rows p)"
    using assms[symmetric]
    by (simp add: default_ilastik_def set_column_def number_rows_other_column o_def
        split: if_splits)
  show "set (columns q) = set (columns p) \<union> {''ilastik''}"
    using assms[symmetric]
    by (auto simp add: default_ilastik_def set_column_def split: if_splits)
qed

lemma default_deepcell_props:
  "c \<noteq> ''deepcell'' \<Longrightarrow> map (\<lambda>r. r c) (rows (default_deepcell p)) = map (\<lambda>r. r c) (rows p)"
  "set (columns (default_deepcell p)) = set (columns p) \<union> {''deepcell''}"
  by (auto simp add: default_deepcell_def set_column_def)

lemma column_all:
  "(\<forall>r \<in> set rs. r c = v) \<longleftrightarrow> (\<forall>x \<in> set (map (\<lambda>r. r c) rs). x = v)"
  by auto

lemma clean_panel_result:
  assumes srt: "is_sort sorter" and ok: "clean_panel sorter p = Inr q"
  shows "\<exists>rs. mset rs = mset (rows p)
     \<and> sorted (map (\<lambda>r. channel_key (r ''channel'')) rs)
     \<and> map (\<lambda>r. r ''channel'') (rows q) = map (\<lambda>r. r ''channel'') rs
     \<and> map (\<lambda>r. r ''name'') (rows q) = map (\<lambda>r. r ''name'') (add_name_suffixes rs [] rs)
     \<and> (''keep'' \<notin> set (columns p) \<longrightarrow> (\<forall>r \<in> set (rows q). r ''keep'' = B True))
     \<and> take 5 (columns q) = panel_columns"
proof -
  let ?rs = "sorter (\<lambda>r. channel_key (r ''channel'')) (rows p)"
  let ?p1 = "p\<lparr>rows := add_name_suffixes ?rs [] ?rs\<rparr>"
  have m: "mset ?rs = mset (rows p)" and s: "sorted (map (\<lambda>r. channel_key (r ''channel'')) ?rs)"
    using srt by (simp_all add: is_sort_def)
  have cn: "''channel'' \<in> set (columns p)" "''name'' \<in> set (columns p)"
    using ok by (auto simp add: clean_panel_def split: if_splits)
  obtain p3 where p3: "default_ilastik (default_keep ?p1) = Inr p3"
    and q: "q = (default_deepcell p3)
        \<lparr>columns := move_columns panel_columns 0 (columns (default_deepcell p3))\<rparr>"
    using ok cn by (auto simp add: clean_panel_def Let_def split: sum.splits)
  have other: "map (\<lambda>r. r c) (rows q) = map (\<lambda>r. r c) (rows ?p1)"
    if "c \<noteq> ''keep''" "c \<noteq> ''ilastik''" "c \<noteq> ''deepcell''" for c
    using that q default_deepcell_props(1)[of c p3] default_ilastik_props(1)[OF p3, of c]
      default_keep_props(1)[of c ?p1] by simp
  have ch: "map (\<lambda>r. r ''channel'') (rows q) = map (\<lambda>r. r ''channel'') ?rs"
    using other[of "''channel''"] by (simp add: add_name_suffixes_other_column)
  have nm: "map (\<lambda>r. r ''name'') (rows q) = map (\<lambda>r. r ''name'') (add_name_suffixes ?rs [] ?rs)"
    using other[of "''name''"] by simp
  have kp: "''keep'' \<notin> set (columns p) \<longrightarrow> (\<forall>r \<in> set (rows q). r ''keep'' = B True)"
  proof
    assume nk: "''keep'' \<notin> set (columns p)"
    then have "\<forall>r \<in> set (rows (default_keep ?p1)). r ''keep'' = B True"
      using default_keep_props(2)[of ?p1] by simp
    moreover have "map (\<lambda>r. r ''keep'') (rows q) = map (\<lambda>r. r ''keep'') (rows (default_keep ?p1))"
      using q default_deepcell_props(1)[of "''keep''" p3]
        default_ilastik_props(1)[OF p3, of "''keep''"] by simp
    ultimately show "\<forall>r \<in> set (rows q). r ''keep'' = B True"
      unfolding column_all[of "rows q"] column_all[of "rows (default_keep ?p1)"] by simp
  qed
  have "set panel_columns \<subseteq> set (columns (default_deepcell p3))"
    using default_deepcell_props(2)[of p3] default_ilastik_props(2)[OF p3]
      default_keep_props(3)[of ?p1] cn
    by (simp add: panel_columns_def)
  then have cl: "take 5 (columns q) = panel_columns" using move_columns_front q by simp
  show ?thesis using m s ch nm kp cl by blast
qed

section \<open>The panel constructors\<close>

lemma number_rows_reset_other:
  "c \<noteq> ''ilastik'' \<Longrightarrow>
     map (\<lambda>r. r c) (number_rows n ms ''ilastik'' (map (\<lambda>r. r(''ilastik'' := NA)) rs))
       = map (\<lambda>r. r c) rs"
  by (simp add: number_rows_other_column o_def)

lemma rename_columns_distinct:
  assumes "distinct [cc, nc, kc, ic]"
  shows "rename_columns cc nc kc ic
     = [(cc, ''channel''), (nc, ''name''), (kc, ''keep''), (ic, ''ilastik'')]"
  using assms by (simp add: rename_columns_def)

lemma no_keep_column:
  assumes d: "distinct [cc, nc, kc, ic]" and nk: "kc \<notin> set cols"
  shows "''keep'' \<notin> set (map (renamed (rename_columns cc nc kc ic))
     (filter (\<lambda>c. c \<notin> set (map snd (filter (\<lambda>(imc_panel_col, panel_col).
         panel_col \<in> set cols \<and> panel_col \<noteq> imc_panel_col) (rename_columns cc nc kc ic)))) cols))"
proof
  let ?dict = "rename_columns cc nc kc ic"
  let ?drop = "map snd (filter (\<lambda>(imc_panel_col, panel_col).
         panel_col \<in> set cols \<and> panel_col \<noteq> imc_panel_col) ?dict)"
  assume "''keep'' \<in> set (map (renamed ?dict) (filter (\<lambda>c. c \<notin> set ?drop) cols))"
  then obtain c where c: "c \<in> set cols" "c \<notin> set ?drop" "renamed ?dict c = ''keep''" by auto
  have dict: "?dict = [(cc, ''channel''), (nc, ''name''), (kc, ''keep''), (ic, ''ilastik'')]"
    using d by (rule rename_columns_distinct)
  have "c \<noteq> kc" using c(1) nk by auto
  then have "c = ''keep''" using c(3) unfolding dict renamed_def
    by (auto split: if_splits)
  then have "''keep'' \<in> set cols" "''keep'' \<noteq> kc" using c(1) nk by auto
  then have "''keep'' \<in> set ?drop" unfolding dict by simp
  then show False using c(2) \<open>c = ''keep''\<close> by simp
qed

lemma concat_panels_clean:
  "concat_panels sorter panels = Inr q \<Longrightarrow>
     clean_panel sorter \<lparr>columns = [''channel'', ''name''],
       rows = drop_duplicates [''channel'', ''name''] [] (concat panels)\<rparr> = Inr q"
  by (simp add: concat_panels_def split: if_splits)

lemma concat_panels_shape:
  assumes srt: "is_sort sorter" and ok: "concat_panels sorter panels = Inr q"
  shows "take 5 (columns q) = [''channel'', ''name'', ''keep'', ''ilastik'', ''deepcell'']
     \<and> (\<forall>r \<in> set (rows q). r ''keep'' = B True)
     \<and> sorted (map (\<lambda>r. channel_key (r ''channel'')) (rows q))"
proof -
  from clean_panel_result[OF srt concat_panels_clean[OF ok]]
  obtain rs where rs: "sorted (map (\<lambda>r. channel_key (r ''channel'')) rs)"
    "map (\<lambda>r. r ''channel'') (rows q) = map (\<lambda>r. r ''channel'') rs"
    "\<forall>r \<in> set (rows q). r ''keep'' = B True"
    "take 5 (columns q) = panel_columns"
    by auto
  have "map (\<lambda>r. channel_key (r ''channel'')) (rows q) = map channel_key (map (\<lambda>r. r ''channel'') (rows q))"
    by (simp add: o_def)
  also have "\<dots> = map (\<lambda>r. channel_key (r ''channel'')) rs" unfolding rs(2) by (simp add: o_def)
  finally show ?thesis using rs by (simp add: panel_columns_def)
qed

section \<open>The rows of a merged panel\<close>

lemma is_sort_sort_key: "is_sort sort_key"
  by (simp add: is_sort_def)

lemma drop_duplicates_props:
  "distinct (map (\<lambda>r. map r cols) (drop_duplicates cols seen rs))
   \<and> set (map (\<lambda>r. map r cols) (drop_duplicates cols seen rs))
       = set (map (\<lambda>r. map r cols) rs) - set (map (\<lambda>r. map r cols) seen)
   \<and> set (drop_duplicates cols seen rs) \<subseteq> set rs"
proof (induction rs arbitrary: seen)
  case Nil
  then show ?case by simp
next
  case (Cons r rs)
  show ?case
  proof (cases "map r cols \<in> set (map (\<lambda>q. map q cols) seen)")
    case True
    then show ?thesis using Cons.IH[of seen] by auto
  next
    case False
    then show ?thesis using Cons.IH[of "r # seen"] by auto
  qed
qed

lemma drop_duplicates_channel_name:
  "distinct (map channel_name (drop_duplicates [''channel'', ''name''] [] rs))
   \<and> set (map channel_name (drop_duplicates [''channel'', ''name''] [] rs))
       = set (map channel_name rs)"
proof -
  let ?dd = "drop_duplicates [''channel'', ''name''] [] rs"
  let ?k = "\<lambda>r::row. map r [''channel'', ''name'']"
  have cn: "channel_name = (\<lambda>l. (l ! 0, l ! 1)) \<circ> ?k"
    by (auto simp add: channel_name_def fun_eq_iff)
  have d: "distinct (map ?k ?dd)" and s: "set (map ?k ?dd) = set (map ?k rs)"
    using drop_duplicates_props[of "[''channel'', ''name'']" "[]" rs] by simp_all
  have inj: "inj_on (\<lambda>l::cell list. (l ! 0, l ! 1)) (set (map ?k ?dd))"
    by (auto simp add: inj_on_def)
  have "distinct (map (\<lambda>l. (l ! 0, l ! 1)) (map ?k ?dd))"
    using d inj by (simp only: distinct_map)
  then have 1: "distinct (map channel_name ?dd)" unfolding cn by simp
  have "set (map channel_name ?dd) = (\<lambda>l. (l ! 0, l ! 1)) ` set (map ?k ?dd)"
    unfolding cn by (simp add: image_comp)
  also have "\<dots> = (\<lambda>l. (l ! 0, l ! 1)) ` set (map ?k rs)" unfolding s ..
  also have "\<dots> = set (map channel_name rs)" unfolding cn by (simp add: image_comp)
  finally show ?thesis using 1 by simp
qed

lemma add_name_suffixes_nth:
  "i < length rs \<Longrightarrow>
     add_name_suffixes all_rows seen rs ! i =
       (if name_duplicated all_rows (rs ! i)
        then (rs ! i)(''name'' := with_suffix ((rs ! i) ''name'')
               (length (filter (\<lambda>q. q ''name'' = (rs ! i) ''name'') (seen @ take i rs))))
        else rs ! i)"
proof (induction rs arbitrary: seen i)
  case Nil
  then show ?case by simp
next
  case (Cons r rs)
  show ?case
  proof (cases i)
    case 0
    then show ?thesis by simp
  next
    case (Suc j)
    then have "j < length rs" using Cons.prems by simp
    from Cons.IH[OF this, of "seen @ [r]"] show ?thesis using Suc by simp
  qed
qed

lemma mcd_panels_acquisitions:
  "mcd_panels env files = Inr panels \<Longrightarrow>
     set (concat panels) = (\<Union>f \<in> set files. \<Union>slides \<in> {s. MCDFile env (Path f) = Inr s}.
        \<Union>a \<in> set (concat slides). set (channel_rows (channel_names a) (channel_labels a)))"
proof (induction files arbitrary: panels)
  case Nil
  then show ?case by simp
next
  case (Cons f files)
  from Cons.prems obtain slides ps where
    sl: "MCDFile env (Path f) = Inr slides" and ps: "mcd_panels env files = Inr ps"
    and panels: "panels = map (\<lambda>a. channel_rows (channel_names a) (channel_labels a))
        (concat slides) @ ps"
    by (auto split: sum.splits)
  have "{s. MCDFile env (Path f) = Inr s} = {slides}" using sl by auto
  then show ?case using Cons.IH[OF ps] panels by simp
qed

section \<open>Grouping by channel\<close>

lemma strings_of_set: "s \<in> set (strings_of cs) \<longleftrightarrow> S s \<in> set cs"
  by (induction cs rule: strings_of.induct) auto

lemma first_valid_const:
  "xs \<noteq> [] \<Longrightarrow> \<forall>x \<in> set xs. x = v \<Longrightarrow> v \<noteq> NA \<Longrightarrow> first_valid xs = v"
  by (cases xs) auto

lemma groupby_first_channels:
  "map (\<lambda>r. r ''channel'') (rows (groupby_first p))
     = map S (sort (remdups (strings_of (map (\<lambda>r. r ''channel'') (rows p)))))"
proof -
  let ?keys = "sort (remdups (strings_of (map (\<lambda>r. r ''channel'') (rows p))))"
  have "first_valid (map (\<lambda>r. r ''channel'') (filter (\<lambda>r. r ''channel'' = S k) (rows p))) = S k"
    if "k \<in> set ?keys" for k
  proof (rule first_valid_const)
    have "S k \<in> set (map (\<lambda>r. r ''channel'') (rows p))"
      using that by (simp add: strings_of_set)
    then show "map (\<lambda>r. r ''channel'') (filter (\<lambda>r. r ''channel'' = S k) (rows p)) \<noteq> []"
      by (auto simp add: filter_empty_conv)
  qed auto
  then show ?thesis by (simp add: groupby_first_def)
qed

lemma groupby_first_distinct:
  "distinct (map (\<lambda>r. r ''channel'') (rows (groupby_first p)))"
  unfolding groupby_first_channels by (simp add: distinct_map inj_on_def)

lemma clean_panel_distinct:
  assumes "is_sort sorter" and "clean_panel sorter p = Inr q"
    and "distinct (map (\<lambda>r. r ''channel'') (rows p))"
  shows "distinct (map (\<lambda>r. r ''channel'') (rows q))"
proof -
  from clean_panel_result[OF assms(1,2)]
  obtain rs where rs: "mset rs = mset (rows p)"
    "map (\<lambda>r. r ''channel'') (rows q) = map (\<lambda>r. r ''channel'') rs" by auto
  have "mset (map (\<lambda>r. r ''channel'') rs) = mset (map (\<lambda>r. r ''channel'') (rows p))"
    using rs(1) by (metis mset_map)
  then show ?thesis unfolding rs(2) using assms(3) mset_eq_imp_distinct_iff by blast
qed

lemma concat_panels_distinct:
  assumes "is_sort sorter" and "concat_panels sorter panels = Inr q"
    and con: "\<forall>r \<in> set (concat panels). \<forall>q \<in> set (concat panels).
       r ''channel'' = q ''channel'' \<longrightarrow> r ''name'' = q ''name''"
  shows "distinct (map (\<lambda>r. r ''channel'') (rows q))"
proof -
  let ?dd = "drop_duplicates [''channel'', ''name''] [] (concat panels)"
  have d: "distinct (map channel_name ?dd)"
    using drop_duplicates_channel_name[of "concat panels"] by simp
  have sub: "set ?dd \<subseteq> set (concat panels)"
    using drop_duplicates_props[of "[''channel'', ''name'']" "[]" "concat panels"] by simp
  have inj: "inj_on fst (set (map channel_name ?dd))"
  proof (rule inj_onI)
    fix x y assume x: "x \<in> set (map channel_name ?dd)" and y: "y \<in> set (map channel_name ?dd)"
      and e: "fst x = fst y"
    obtain r where r: "r \<in> set ?dd" "x = channel_name r" using x by auto
    obtain q where q: "q \<in> set ?dd" "y = channel_name q" using y by auto
    have "r ''channel'' = q ''channel''" using e r(2) q(2) by (simp add: channel_name_def)
    then have "r ''name'' = q ''name''" using con r(1) q(1) sub by blast
    then show "x = y" using e r(2) q(2) by (simp add: channel_name_def)
  qed
  have "distinct (map fst (map channel_name ?dd))" using d inj by (simp only: distinct_map)
  then have "distinct (map (\<lambda>r. r ''channel'') ?dd)" by (simp add: o_def channel_name_def)
  then show ?thesis
    using clean_panel_distinct[OF assms(1) concat_panels_clean[OF assms(2)]] by simp
qed

section \<open>Properties of the panels\<close>

subsection \<open>Columns, keep flags and row order\<close>

text \<open>
  C6: for every sorting function and every panel returned by
  \<open>create_panel_from_mcd_files\<close>, \<open>create_panel_from_txt_files\<close> or
  \<open>create_panel_from_imc_panel\<close>, the first five columns are \<open>channel\<close>, \<open>name\<close>, \<open>keep\<close>,
  \<open>ilastik\<close>, \<open>deepcell\<close> in that order; \<open>keep\<close> is \<open>True\<close> in every row when the input gives
  no keep information (always for MCD and txt files; for an IMC panel, when the keep
  column is absent, the four column names being different); and the rows are in
  ascending order of the number made of the digits of the channel id (ids without a
  digit last).
\<close>

theorem panel_columns_keep_sorted:
  assumes "is_sort sorter"
  shows "(create_panel_from_mcd_files env sorter mcd_files = Inr p \<longrightarrow>
        take 5 (columns p) = [''channel'', ''name'', ''keep'', ''ilastik'', ''deepcell'']
      \<and> (\<forall>r \<in> set (rows p). r ''keep'' = B True)
      \<and> sorted (map (\<lambda>r. channel_key (r ''channel'')) (rows p)))
   \<and> (create_panel_from_txt_files env sorter txt_files = Inr p' \<longrightarrow>
        take 5 (columns p') = [''channel'', ''name'', ''keep'', ''ilastik'', ''deepcell'']
      \<and> (\<forall>r \<in> set (rows p'). r ''keep'' = B True)
      \<and> sorted (map (\<lambda>r. channel_key (r ''channel'')) (rows p')))
   \<and> (create_panel_from_imc_panel sorter imc_panel cc nc kc ic = Inr p'' \<longrightarrow>
        take 5 (columns p'') = [''channel'', ''name'', ''keep'', ''ilastik'', ''deepcell'']
      \<and> (distinct [cc, nc, kc, ic] \<and> kc \<notin> set (columns imc_panel) \<longrightarrow>
            (\<forall>r \<in> set (rows p''). r ''keep'' = B True))
      \<and> sorted (map (\<lambda>r. channel_key (r ''channel'')) (rows p'')))"
proof (intro conjI impI)
  assume "create_panel_from_mcd_files env sorter mcd_files = Inr p"
  then obtain panels where "concat_panels sorter panels = Inr p"
    by (auto simp add: create_panel_from_mcd_files_def split: sum.splits)
  from concat_panels_shape[OF assms this]
  show "take 5 (columns p) = [''channel'', ''name'', ''keep'', ''ilastik'', ''deepcell'']"
    "\<forall>r \<in> set (rows p). r ''keep'' = B True"
    "sorted (map (\<lambda>r. channel_key (r ''channel'')) (rows p))" by simp_all
next
  assume "create_panel_from_txt_files env sorter txt_files = Inr p'"
  then obtain panels where "concat_panels sorter panels = Inr p'"
    by (auto simp add: create_panel_from_txt_files_def split: sum.splits)
  from concat_panels_shape[OF assms this]
  show "take 5 (columns p') = [''channel'', ''name'', ''keep'', ''ilastik'', ''deepcell'']"
    "\<forall>r \<in> set (rows p'). r ''keep'' = B True"
    "sorted (map (\<lambda>r. channel_key (r ''channel'')) (rows p'))" by simp_all
next
  assume ok: "create_panel_from_imc_panel sorter imc_panel cc nc kc ic = Inr p''"
  let ?dict = "rename_columns cc nc kc ic"
  let ?drop = "map snd (filter (\<lambda>(imc_panel_col, panel_col).
         panel_col \<in> set (columns imc_panel) \<and> panel_col \<noteq> imc_panel_col) ?dict)"
  let ?kept = "filter (\<lambda>c. c \<notin> set ?drop) (columns imc_panel)"
  let ?panel = "\<lparr>columns = map (renamed ?dict) ?kept,
                    rows = map (rename_row (renamed ?dict) ?kept) (rows imc_panel)\<rparr>"
  let ?g = "groupby_first (?panel\<lparr>rows := map (merge_group ?panel) (rows ?panel)\<rparr>)"
  obtain cleaned where cl: "clean_panel sorter ?g = Inr cleaned"
    and p'': "p'' = cleaned\<lparr>rows :=
        number_rows 1 (map (\<lambda>r. truthy (r ''ilastik'')) (rows cleaned)) ''ilastik''
          (map (\<lambda>r. r(''ilastik'' := NA)) (rows cleaned))\<rparr>"
    using ok by (auto simp add: create_panel_from_imc_panel_def Let_def split: if_splits sum.splits)
  from clean_panel_result[OF assms cl]
  obtain rs where rs: "sorted (map (\<lambda>r. channel_key (r ''channel'')) rs)"
    "map (\<lambda>r. r ''channel'') (rows cleaned) = map (\<lambda>r. r ''channel'') rs"
    "''keep'' \<notin> set (columns ?g) \<longrightarrow> (\<forall>r \<in> set (rows cleaned). r ''keep'' = B True)"
    "take 5 (columns cleaned) = panel_columns"
    by auto
  show "take 5 (columns p'') = [''channel'', ''name'', ''keep'', ''ilastik'', ''deepcell'']"
    using rs(4) p'' by (simp add: panel_columns_def)
  have chq: "map (\<lambda>r. r ''channel'') (rows p'') = map (\<lambda>r. r ''channel'') rs"
    using p'' rs(2) by (simp add: number_rows_reset_other)
  have "map (\<lambda>r. channel_key (r ''channel'')) (rows p'') = map channel_key (map (\<lambda>r. r ''channel'') (rows p''))"
    by (simp add: o_def)
  also have "\<dots> = map (\<lambda>r. channel_key (r ''channel'')) rs" unfolding chq by (simp add: o_def)
  finally show "sorted (map (\<lambda>r. channel_key (r ''channel'')) (rows p''))" using rs(1) by simp
  show "\<forall>r \<in> set (rows p''). r ''keep'' = B True"
    if h: "distinct [cc, nc, kc, ic] \<and> kc \<notin> set (columns imc_panel)"
  proof -
    have "''keep'' \<notin> set (columns ?g)"
      using no_keep_column[of cc nc kc ic "columns imc_panel"] h
      by (simp add: groupby_first_def)
    then have "\<forall>r \<in> set (rows cleaned). r ''keep'' = B True" using rs(3) by blast
    moreover have "map (\<lambda>r. r ''keep'') (rows p'') = map (\<lambda>r. r ''keep'') (rows cleaned)"
      using p'' by (simp add: number_rows_reset_other)
    ultimately show ?thesis
      unfolding column_all[of "rows p''"] column_all[of "rows cleaned"] by simp
  qed
qed

theorem panel_columns_keep_sorted_witness:
  "\<exists>p. create_panel_from_mcd_files disk1 sort_key [Str ''c.mcd''] = Inr p
     \<and> take 5 (columns p) = [''channel'', ''name'', ''keep'', ''ilastik'', ''deepcell'']
     \<and> (\<forall>r \<in> set (rows p). r ''keep'' = B True)
     \<and> sorted (map (\<lambda>r. channel_key (r ''channel'')) (rows p))"
proof -
  have "table (create_panel_from_mcd_files disk1 sort_key [Str ''c.mcd''])
     = Inr ([''channel'', ''name'', ''keep'', ''ilastik'', ''deepcell''],
            [[S ''Yb172'', S ''CD3'', B True, U 1, NA],
             [S ''Ir191'', S ''DNA 1'', B True, U 2, NA],
             [S ''Ir193'', S ''DNA 2'', B True, U 3, NA]])" by code_simp
  then obtain p where p: "create_panel_from_mcd_files disk1 sort_key [Str ''c.mcd''] = Inr p"
    by (cases "create_panel_from_mcd_files disk1 sort_key [Str ''c.mcd'']")
      (simp_all add: table_def)
  show ?thesis
    using p panel_columns_keep_sorted [OF is_sort_sort_key, of disk1 "[Str ''c.mcd'']" p]
    by blast
qed

subsection \<open>One row for each channel and label\<close>

text \<open>
  C5, amended: the panel \<open>create_panel_from_mcd_files\<close> returns has exactly one row for each
  distinct (channel, label) pair occurring in any acquisition of any slide of any given MCD
  file: its rows follow a list \<open>rs\<close> of rows of the acquisitions with pairwise distinct
  (channel, label) pairs, the same pairs as in the acquisitions, in ascending order of the
  channel number; each row has the channel of its pair and, as name, the label, followed
  by a running number when the label occurs in several rows.
\<close>

theorem mcd_panel_one_row_per_pair:
  assumes "is_sort sorter"
    and "create_panel_from_mcd_files env sorter mcd_files = Inr panel"
  shows "\<exists>panels rs. mcd_panels env mcd_files = Inr panels
     \<and> set (concat panels) = (\<Union>f \<in> set mcd_files. \<Union>slides \<in> {s. MCDFile env (Path f) = Inr s}.
          \<Union>a \<in> set (concat slides). set (channel_rows (channel_names a) (channel_labels a)))
     \<and> distinct (map channel_name rs)
     \<and> set (map channel_name rs) = set (map channel_name (concat panels))
     \<and> sorted (map (\<lambda>r. channel_key (r ''channel'')) rs)
     \<and> length (rows panel) = length rs
     \<and> (\<forall>i < length rs. (rows panel ! i) ''channel'' = (rs ! i) ''channel''
           \<and> (rows panel ! i) ''name'' =
               (if name_duplicated rs (rs ! i)
                then with_suffix ((rs ! i) ''name'')
                       (length (filter (\<lambda>q. q ''name'' = (rs ! i) ''name'') (take i rs)))
                else (rs ! i) ''name''))"
proof -
  obtain panels where mp: "mcd_panels env mcd_files = Inr panels"
    and cp: "concat_panels sorter panels = Inr panel"
    using assms(2) by (auto simp add: create_panel_from_mcd_files_def split: sum.splits)
  let ?dd = "drop_duplicates [''channel'', ''name''] [] (concat panels)"
  from clean_panel_result[OF assms(1) concat_panels_clean[OF cp]]
  obtain rs where rs: "mset rs = mset ?dd"
    "sorted (map (\<lambda>r. channel_key (r ''channel'')) rs)"
    "map (\<lambda>r. r ''channel'') (rows panel) = map (\<lambda>r. r ''channel'') rs"
    "map (\<lambda>r. r ''name'') (rows panel) = map (\<lambda>r. r ''name'') (add_name_suffixes rs [] rs)"
    by auto
  have msm: "mset (map channel_name rs) = mset (map channel_name ?dd)"
    using rs(1) by (metis mset_map)
  have d: "distinct (map channel_name rs)"
    using msm drop_duplicates_channel_name[of "concat panels"] mset_eq_imp_distinct_iff by blast
  have s: "set (map channel_name rs) = set (map channel_name (concat panels))"
    using msm drop_duplicates_channel_name[of "concat panels"] mset_eq_setD by blast
  have len: "length (rows panel) = length rs"
    using rs(3) by (metis length_map)
  have pt: "\<forall>i < length rs. (rows panel ! i) ''channel'' = (rs ! i) ''channel''
           \<and> (rows panel ! i) ''name'' =
               (if name_duplicated rs (rs ! i)
                then with_suffix ((rs ! i) ''name'')
                       (length (filter (\<lambda>q. q ''name'' = (rs ! i) ''name'') (take i rs)))
                else (rs ! i) ''name'')"
  proof (intro allI impI)
    fix i assume i: "i < length rs"
    have "(rows panel ! i) ''channel'' = map (\<lambda>r. r ''channel'') (rows panel) ! i"
      using i len by simp
    also have "\<dots> = (rs ! i) ''channel''" unfolding rs(3) using i by simp
    finally have c: "(rows panel ! i) ''channel'' = (rs ! i) ''channel''" .
    have "(rows panel ! i) ''name'' = map (\<lambda>r. r ''name'') (rows panel) ! i"
      using i len by simp
    also have "\<dots> = (add_name_suffixes rs [] rs ! i) ''name''" unfolding rs(4) using i by simp
    also have "\<dots> = (if name_duplicated rs (rs ! i)
                then with_suffix ((rs ! i) ''name'')
                       (length (filter (\<lambda>q. q ''name'' = (rs ! i) ''name'') (take i rs)))
                else (rs ! i) ''name'')"
      using add_name_suffixes_nth[OF i, of rs "[]"] by simp
    finally show "(rows panel ! i) ''channel'' = (rs ! i) ''channel''
           \<and> (rows panel ! i) ''name'' =
               (if name_duplicated rs (rs ! i)
                then with_suffix ((rs ! i) ''name'')
                       (length (filter (\<lambda>q. q ''name'' = (rs ! i) ''name'') (take i rs)))
                else (rs ! i) ''name'')" using c by simp
  qed
  show ?thesis
    using mp mcd_panels_acquisitions[OF mp] d s rs(2) len pt by blast
qed

theorem mcd_panel_one_row_per_pair_witness:
  "\<exists>p rs. create_panel_from_mcd_files disk1 sort_key [Str ''c.mcd''] = Inr p
     \<and> distinct (map channel_name rs)
     \<and> sorted (map (\<lambda>r. channel_key (r ''channel'')) rs)
     \<and> length (rows p) = length rs"
proof -
  have "table (create_panel_from_mcd_files disk1 sort_key [Str ''c.mcd''])
     = Inr ([''channel'', ''name'', ''keep'', ''ilastik'', ''deepcell''],
            [[S ''Yb172'', S ''CD3'', B True, U 1, NA],
             [S ''Ir191'', S ''DNA 1'', B True, U 2, NA],
             [S ''Ir193'', S ''DNA 2'', B True, U 3, NA]])" by code_simp
  then obtain p where p: "create_panel_from_mcd_files disk1 sort_key [Str ''c.mcd''] = Inr p"
    by (cases "create_panel_from_mcd_files disk1 sort_key [Str ''c.mcd'']")
      (simp_all add: table_def)
  show ?thesis
    using p mcd_panel_one_row_per_pair [OF is_sort_sort_key p] by blast
qed

text \<open>
  C5 as stated fails when two channels share a label: \<open>_clean_panel\<close> numbers the shared
  names, and the panel of \<open>c.mcd\<close> holds the row (\<open>Ir191\<close>, \<open>DNA 1\<close>), which occurs in no
  acquisition.
\<close>

theorem panel_row_in_no_acquisition_counterexample:
  "table (create_panel_from_mcd_files disk1 sort_key [Str ''c.mcd''])
     = Inr ([''channel'', ''name'', ''keep'', ''ilastik'', ''deepcell''],
            [[S ''Yb172'', S ''CD3'', B True, U 1, NA],
             [S ''Ir191'', S ''DNA 1'', B True, U 2, NA],
             [S ''Ir193'', S ''DNA 2'', B True, U 3, NA]])
   \<and> map channel_name (channel_rows (channel_names acq3) (channel_labels acq3))
     = [(S ''Ir193'', S ''DNA''), (S ''Ir191'', S ''DNA''), (S ''Yb172'', S ''CD3'')]
   \<and> (S ''Ir191'', S ''DNA 1'')
       \<notin> set (map channel_name (channel_rows (channel_names acq3) (channel_labels acq3)))"
  by code_simp

subsection \<open>Unique channel ids\<close>

text \<open>
  C1, amended: the channel ids of a panel returned by \<open>create_panel_from_imc_panel\<close> are
  pairwise distinct; those of a panel returned by \<open>create_panel_from_mcd_files\<close> or
  \<open>create_panel_from_txt_files\<close> are pairwise distinct when no channel id carries two
  different labels in the acquisitions (txt files) read.
\<close>

theorem channel_ids_unique:
  assumes "is_sort sorter"
  shows "(create_panel_from_imc_panel sorter imc_panel cc nc kc ic = Inr p \<longrightarrow>
        distinct (map (\<lambda>r. r ''channel'') (rows p)))
   \<and> (create_panel_from_mcd_files env sorter mcd_files = Inr p'
        \<and> mcd_panels env mcd_files = Inr panels
        \<and> (\<forall>r \<in> set (concat panels). \<forall>q \<in> set (concat panels).
              r ''channel'' = q ''channel'' \<longrightarrow> r ''name'' = q ''name'') \<longrightarrow>
        distinct (map (\<lambda>r. r ''channel'') (rows p')))
   \<and> (create_panel_from_txt_files env sorter txt_files = Inr p''
        \<and> txt_panels env txt_files = Inr panels'
        \<and> (\<forall>r \<in> set (concat panels'). \<forall>q \<in> set (concat panels').
              r ''channel'' = q ''channel'' \<longrightarrow> r ''name'' = q ''name'') \<longrightarrow>
        distinct (map (\<lambda>r. r ''channel'') (rows p'')))"
proof (intro conjI impI)
  assume ok: "create_panel_from_imc_panel sorter imc_panel cc nc kc ic = Inr p"
  let ?dict = "rename_columns cc nc kc ic"
  let ?drop = "map snd (filter (\<lambda>(imc_panel_col, panel_col).
         panel_col \<in> set (columns imc_panel) \<and> panel_col \<noteq> imc_panel_col) ?dict)"
  let ?kept = "filter (\<lambda>c. c \<notin> set ?drop) (columns imc_panel)"
  let ?panel = "\<lparr>columns = map (renamed ?dict) ?kept,
                    rows = map (rename_row (renamed ?dict) ?kept) (rows imc_panel)\<rparr>"
  let ?g = "groupby_first (?panel\<lparr>rows := map (merge_group ?panel) (rows ?panel)\<rparr>)"
  obtain cleaned where cl: "clean_panel sorter ?g = Inr cleaned"
    and p: "p = cleaned\<lparr>rows :=
        number_rows 1 (map (\<lambda>r. truthy (r ''ilastik'')) (rows cleaned)) ''ilastik''
          (map (\<lambda>r. r(''ilastik'' := NA)) (rows cleaned))\<rparr>"
    using ok by (auto simp add: create_panel_from_imc_panel_def Let_def split: if_splits sum.splits)
  have "distinct (map (\<lambda>r. r ''channel'') (rows cleaned))"
    using clean_panel_distinct[OF assms cl groupby_first_distinct] .
  then show "distinct (map (\<lambda>r. r ''channel'') (rows p))"
    using p by (simp add: number_rows_reset_other)
next
  assume h: "create_panel_from_mcd_files env sorter mcd_files = Inr p'
        \<and> mcd_panels env mcd_files = Inr panels
        \<and> (\<forall>r \<in> set (concat panels). \<forall>q \<in> set (concat panels).
              r ''channel'' = q ''channel'' \<longrightarrow> r ''name'' = q ''name'')"
  then have "concat_panels sorter panels = Inr p'"
    by (auto simp add: create_panel_from_mcd_files_def)
  then show "distinct (map (\<lambda>r. r ''channel'') (rows p'))"
    using concat_panels_distinct[OF assms] h by blast
next
  assume h: "create_panel_from_txt_files env sorter txt_files = Inr p''
        \<and> txt_panels env txt_files = Inr panels'
        \<and> (\<forall>r \<in> set (concat panels'). \<forall>q \<in> set (concat panels').
              r ''channel'' = q ''channel'' \<longrightarrow> r ''name'' = q ''name'')"
  then have "concat_panels sorter panels' = Inr p''"
    by (auto simp add: create_panel_from_txt_files_def)
  then show "distinct (map (\<lambda>r. r ''channel'') (rows p''))"
    using concat_panels_distinct[OF assms] h by blast
qed

theorem channel_ids_unique_witness:
  "table (create_panel_from_imc_panel sort_key csv0 ''Metal Tag'' ''Target'' ''full'' ''ilastik'')
     = Inr ([''channel'', ''name'', ''keep'', ''ilastik'', ''deepcell''],
            [[S ''Yb172'', S ''CD3'', B True, U 1, NA],
             [S ''Ir191'', S ''DNA1 / DNA'', B True, U 2, NA]])
   \<and> (\<exists>p. create_panel_from_imc_panel sort_key csv0 ''Metal Tag'' ''Target'' ''full'' ''ilastik''
          = Inr p \<and> distinct (map (\<lambda>r. r ''channel'') (rows p)))"
proof -
  have t: "table (create_panel_from_imc_panel sort_key csv0 ''Metal Tag'' ''Target'' ''full'' ''ilastik'')
     = Inr ([''channel'', ''name'', ''keep'', ''ilastik'', ''deepcell''],
            [[S ''Yb172'', S ''CD3'', B True, U 1, NA],
             [S ''Ir191'', S ''DNA1 / DNA'', B True, U 2, NA]])" by code_simp
  then obtain p where p: "create_panel_from_imc_panel sort_key csv0 ''Metal Tag'' ''Target''
      ''full'' ''ilastik'' = Inr p"
    by (cases "create_panel_from_imc_panel sort_key csv0 ''Metal Tag'' ''Target'' ''full'' ''ilastik''")
      (simp_all add: table_def)
  show ?thesis
    using t p channel_ids_unique [OF is_sort_sort_key, of csv0 "''Metal Tag''" "''Target''"
        "''full''" "''ilastik''" p]
    by blast
qed

text \<open>
  C1 as stated fails for MCD files: \<open>drop_duplicates\<close> compares whole rows, so a channel
  labelled differently in two acquisitions stays twice in the panel.
\<close>

theorem channel_ids_repeated_counterexample:
  "table (create_panel_from_mcd_files disk1 sort_key [Str ''d.mcd''])
     = Inr ([''channel'', ''name'', ''keep'', ''ilastik'', ''deepcell''],
            [[S ''Yb172'', S ''CD3'', B True, U 1, NA],
             [S ''Ir191'', S ''DNA 1'', B True, U 2, NA],
             [S ''Ir191'', S ''Histone'', B True, U 3, NA],
             [S ''Ir193'', S ''DNA 2'', B True, U 4, NA]])
   \<and> (case create_panel_from_mcd_files disk1 sort_key [Str ''d.mcd''] of
         Inl e \<Rightarrow> False
       | Inr p \<Rightarrow> \<not> distinct (map (\<lambda>r. r ''channel'') (rows p)))"
  by code_simp

end
